theory Spec2Isabelle
  imports Main "HOL-Library.AList"
begin

section \<open>Braille display detection (bdDetect.py)\<close>

text \<open>
  A shallow embedding of \<^verbatim>\<open>bdDetect.py\<close>: the registry of driver signatures
  (\<^verbatim>\<open>_driverDevices\<close>), the generator functions that match enumerated devices against
  it, and the background scan of the \<^verbatim>\<open>Detector\<close> class.

  Conventions of the embedding.
  \<^item> A Python exception is a value of \<open>error\<close>.
  \<^item> The dictionaries that the code iterates over (\<^verbatim>\<open>_driverDevices\<close> and the
    per-driver \<^verbatim>\<open>defaultdict(set)\<close>) are association lists: the order of the list is
    the iteration order of the dictionary, which Python leaves unspecified. Inserting a
    new key appends it. The dictionaries of the hardware enumeration are only looked up,
    so they are maps.
  \<^item> A generator is described by the items it yields and the exception that ends it, if
    one does: \<open>(items, None)\<close> is a generator that yields \<open>items\<close> and stops,
    \<open>(items, Some e)\<close> one that yields \<open>items\<close> and then raises \<open>e\<close>.
  \<^item> The collaborators that are not part of the module (\<^verbatim>\<open>hwPortUtils\<close>,
    \<^verbatim>\<open>braille.handler.setDisplayByName\<close>, the stop event set by another thread, the
    kernel timer) are an environment \<open>env\<close>: what each call answers at a given moment,
    the moment being the number of external calls made so far (the length of the trace).
\<close>

subsection \<open>Data model\<close>

datatype error = KeyError | TypeError | AttributeError | WinError

text \<open>\<open>KeyError\<close> is the only \<^verbatim>\<open>LookupError\<close> of the model.\<close>

fun isLookupError :: "error \<Rightarrow> bool" where
  "isLookupError KeyError = True"
| "isLookupError _ = False"

datatype pval = Str string | Num int

type_synonym portInfo = "string \<rightharpoonup> pval"

text \<open>The named tuple \<^verbatim>\<open>DeviceMatch(type, id, port, deviceInfo)\<close>.\<close>

record DeviceMatch =
  matchType :: string
  matchId :: pval
  matchPort :: pval
  deviceInfo :: portInfo

definition POLL_INTERVAL :: nat where
  "POLL_INTERVAL = 5000"

definition KEY_HID :: string where
  "KEY_HID = ''hid''"

definition KEY_SERIAL :: string where
  "KEY_SERIAL = ''serial''"

definition KEY_CUSTOM :: string where
  "KEY_CUSTOM = ''custom''"

definition KEY_BLUETOOTH :: string where
  "KEY_BLUETOOTH = ''bluetooth''"

text \<open>
  A value of a driver's \<^verbatim>\<open>defaultdict(set)\<close>: a set of ids (stored by
  \<^verbatim>\<open>addUsbDevices\<close>, or created by the default factory) or a match function (stored by
  \<^verbatim>\<open>addBluetoothDevices\<close>).
\<close>

datatype entry = Ids "pval set" | MatchFunc "DeviceMatch \<Rightarrow> bool"

type_synonym devs = "(string \<times> entry) list"

type_synonym registry = "(string \<times> devs) list"

type_synonym candidate = "string \<times> DeviceMatch"

type_synonym 'a gen = "'a list \<times> error option"

subsection \<open>Registration\<close>

text \<open>
  \<^verbatim>\<open>_getDriver\<close>: the driver's dictionary, created empty when the driver is new.
  The model returns the registry in which the driver exists.
\<close>

definition getDriver :: "string \<Rightarrow> registry \<Rightarrow> devs \<times> registry" where
  "getDriver driver reg =
     (case map_of reg driver of
        Some devs \<Rightarrow> (devs, reg)
      | None \<Rightarrow> ([], reg @ [(driver, [])]))"

text \<open>
  \<^verbatim>\<open>devs[key]\<close> on a \<^verbatim>\<open>defaultdict(set)\<close>: a missing key is inserted with an
  empty set, which is returned.
\<close>

definition getDefault :: "string \<Rightarrow> devs \<Rightarrow> entry \<times> devs" where
  "getDefault key devs =
     (case map_of devs key of
        Some e \<Rightarrow> (e, devs)
      | None \<Rightarrow> (Ids {}, devs @ [(key, Ids {})]))"

text \<open>
  \<^verbatim>\<open>addUsbDevices\<close>: \<^verbatim>\<open>devs[type].update(ids)\<close>. A function stored under the key has
  no \<^verbatim>\<open>update\<close> attribute.
\<close>

definition addUsbDevices :: "string \<Rightarrow> string \<Rightarrow> pval set \<Rightarrow> registry \<Rightarrow> error + registry" where
  "addUsbDevices driver type ids reg =
     (case getDriver driver reg of (devs, reg1) \<Rightarrow>
      (case getDefault type devs of (driverUsb, devs1) \<Rightarrow>
       (case driverUsb of
          Ids s \<Rightarrow> Inr (AList.update driver (AList.update type (Ids (s \<union> ids)) devs1) reg1)
        | MatchFunc f \<Rightarrow> Inl AttributeError)))"

definition addBluetoothDevices :: "string \<Rightarrow> (DeviceMatch \<Rightarrow> bool) \<Rightarrow> registry \<Rightarrow> registry" where
  "addBluetoothDevices driver matchFunc reg =
     (case getDriver driver reg of (devs, reg1) \<Rightarrow>
        AList.update driver (AList.update KEY_BLUETOOTH (MatchFunc matchFunc) devs) reg1)"

subsection \<open>Generators\<close>

text \<open>\<^verbatim>\<open>port[key]\<close> on a dictionary of the hardware enumeration.\<close>

definition getitem :: "portInfo \<Rightarrow> string \<Rightarrow> error + pval" where
  "getitem port key = (case port key of None \<Rightarrow> Inl KeyError | Some v \<Rightarrow> Inr v)"

text \<open>
  \<^verbatim>\<open>DeviceMatch(type, port[idKey], port[portKey], port)\<close>, the arguments evaluated from
  left to right.
\<close>

definition newDeviceMatch :: "string \<Rightarrow> string \<Rightarrow> string \<Rightarrow> portInfo \<Rightarrow> error + DeviceMatch" where
  "newDeviceMatch type idKey portKey port =
     (case getitem port idKey of
        Inl e \<Rightarrow> Inl e
      | Inr i \<Rightarrow>
         (case getitem port portKey of
            Inl e \<Rightarrow> Inl e
          | Inr p \<Rightarrow> Inr \<lparr>matchType = type, matchId = i, matchPort = p, deviceInfo = port\<rparr>))"

text \<open>A generator expression \<^verbatim>\<open>(f(p) for p in ps if c(p))\<close>.\<close>

fun genexp :: "('p \<Rightarrow> bool) \<Rightarrow> ('p \<Rightarrow> error + 'a) \<Rightarrow> 'p list \<Rightarrow> 'a gen" where
  "genexp c f [] = ([], None)"
| "genexp c f (p # ps) =
     (if c p then
        (case f p of
           Inl e \<Rightarrow> ([], Some e)
         | Inr x \<Rightarrow> (case genexp c f ps of (xs, e) \<Rightarrow> (x # xs, e)))
      else genexp c f ps)"

text \<open>\<^verbatim>\<open>itertools.chain\<close> of two generators.\<close>

fun chain :: "'a gen \<Rightarrow> 'a gen \<Rightarrow> 'a gen" where
  "chain (xs, None) g = (xs @ fst g, snd g)"
| "chain (xs, Some e) g = (xs, Some e)"

text \<open>
  \<^verbatim>\<open>for x in g: (the items that body(x) yields)\<close>, where \<open>g\<close> yields \<open>xs\<close> and ends
  with \<open>e\<close>: an exception of the body ends the loop, and the exception of \<open>g\<close> comes
  after its last item.
\<close>

fun forYield :: "'a list \<Rightarrow> error option \<Rightarrow> ('a \<Rightarrow> 'b gen) \<Rightarrow> 'b gen" where
  "forYield [] e body = ([], e)"
| "forYield (x # xs) e body =
     (case body x of
        (ys, Some err) \<Rightarrow> (ys, Some err)
      | (ys, None) \<Rightarrow> (case forYield xs e body of (zs, e') \<Rightarrow> (ys @ zs, e')))"

text \<open>
  The chain of the three generator expressions of the USB functions, from what the
  three enumerations returned: custom devices unfiltered, HID devices and serial ports
  when they have a \<^verbatim>\<open>usbID\<close>.
\<close>

definition usbDevs :: "portInfo list \<Rightarrow> portInfo list \<Rightarrow> portInfo list \<Rightarrow> DeviceMatch gen" where
  "usbDevs usb hid com =
     chain (genexp (\<lambda>port. True) (newDeviceMatch KEY_CUSTOM ''usbID'' ''devicePath'') usb)
       (chain (genexp (\<lambda>port. ''usbID'' \<in> dom port) (newDeviceMatch KEY_HID ''usbID'' ''devicePath'') hid)
          (genexp (\<lambda>port. ''usbID'' \<in> dom port) (newDeviceMatch KEY_SERIAL ''usbID'' ''port'') com))"

text \<open>\<^verbatim>\<open>match.id in ids\<close>: a function is not iterable.\<close>

definition contains :: "pval \<Rightarrow> entry \<Rightarrow> error + bool" where
  "contains x ids = (case ids of Ids s \<Rightarrow> Inr (x \<in> s) | MatchFunc f \<Rightarrow> Inl TypeError)"

text \<open>
  \<^verbatim>\<open>for type, ids in devs.iteritems(): if match.type==type and match.id in ids: yield out\<close>
\<close>

definition matchDevs :: "'a \<Rightarrow> DeviceMatch \<Rightarrow> devs \<Rightarrow> 'a gen" where
  "matchDevs out match devs =
     forYield devs None
       (\<lambda>(type, ids).
          if matchType match = type then
            (case contains (matchId match) ids of
               Inl e \<Rightarrow> ([], Some e)
             | Inr b \<Rightarrow> (if b then ([out], None) else ([], None)))
          else ([], None))"

text \<open>The loops of \<^verbatim>\<open>getDriversForConnectedUsbDevices\<close> over the chained devices.\<close>

definition matchAllUsb :: "registry \<Rightarrow> DeviceMatch gen \<Rightarrow> candidate gen" where
  "matchAllUsb reg g =
     forYield (fst g) (snd g)
       (\<lambda>match. forYield reg None (\<lambda>(driver, devs). matchDevs (driver, match) match devs))"

text \<open>The loops of \<^verbatim>\<open>getConnectedUsbDevicesForDriver\<close> over the chained devices.\<close>

definition matchUsbForDriver :: "devs \<Rightarrow> DeviceMatch gen \<Rightarrow> DeviceMatch gen" where
  "matchUsbForDriver devs g =
     forYield (fst g) (snd g) (\<lambda>match. matchDevs match match devs)"

subsection \<open>The environment and the state\<close>

text \<open>
  Every call to a collaborator is recorded in the trace, with its answer. The answer may
  depend on the moment of the call, so that the hardware, the outcome of an activation
  and the stop event may change while a pass runs.
\<close>

datatype event =
    ListUsbDevices
  | ListHidDevices
  | ListComPorts
  | IsSet bool
  | SetDisplayByName string DeviceMatch bool
  | SetWaitableTimer nat
  | CancelWaitableTimer bool
  | QueueApc
  | RegisterCallback
  | Unregister
  | CloseHandle

record env =
  usbDevicesAt :: "nat \<Rightarrow> portInfo list"
  hidDevicesAt :: "nat \<Rightarrow> portInfo list"
  comPortsAt :: "nat \<Rightarrow> portInfo list"
  activates :: "nat \<Rightarrow> string \<Rightarrow> DeviceMatch \<Rightarrow> bool"
  stopAt :: "nat option"
  cancelSucceeds :: "nat \<Rightarrow> bool"

text \<open>
  The module's global \<^verbatim>\<open>_driverDevices\<close>, the fields of the \<^verbatim>\<open>Detector\<close> and the
  trace. \<open>stopEvent\<close> tells whether the event that \<^verbatim>\<open>self._stopEvent\<close> refers to is
  set; \<open>pollTimer\<close> is the delay the waitable timer is armed with, if it is armed.
\<close>

record state =
  driverDevices :: registry
  btComs :: "candidate list option"
  detectUsb :: bool
  detectBluetooth :: bool
  stopEvent :: bool
  pollTimerHandle :: nat
  pollTimer :: "nat option"
  trace :: "event list"

definition listUsbDevices :: "env \<Rightarrow> state \<Rightarrow> portInfo list \<times> state" where
  "listUsbDevices env st =
     (usbDevicesAt env (length (trace st)), st\<lparr>trace := trace st @ [ListUsbDevices]\<rparr>)"

definition listHidDevices :: "env \<Rightarrow> state \<Rightarrow> portInfo list \<times> state" where
  "listHidDevices env st =
     (hidDevicesAt env (length (trace st)), st\<lparr>trace := trace st @ [ListHidDevices]\<rparr>)"

definition listComPorts :: "env \<Rightarrow> state \<Rightarrow> portInfo list \<times> state" where
  "listComPorts env st =
     (comPortsAt env (length (trace st)), st\<lparr>trace := trace st @ [ListComPorts]\<rparr>)"

text \<open>
  \<^verbatim>\<open>stopEvent.isSet()\<close> on the event the pass captured: \<open>ev\<close> tells whether it was
  set when the pass captured it, and another thread sets it at the moment \<open>stopAt\<close>.
\<close>

definition isSet :: "env \<Rightarrow> bool \<Rightarrow> state \<Rightarrow> bool \<times> state" where
  "isSet env ev st =
     (let b = (ev \<or> (case stopAt env of None \<Rightarrow> False | Some n \<Rightarrow> n \<le> length (trace st)))
      in (b, st\<lparr>trace := trace st @ [IsSet b]\<rparr>))"

definition setDisplayByName :: "env \<Rightarrow> string \<Rightarrow> DeviceMatch \<Rightarrow> state \<Rightarrow> bool \<times> state" where
  "setDisplayByName env driver match st =
     (let ok = activates env (length (trace st)) driver match
      in (ok, st\<lparr>trace := trace st @ [SetDisplayByName driver match ok]\<rparr>))"

subsection \<open>Matching against the enumerated devices\<close>

text \<open>
  A generator object: the body of a generator function, not yet run. Calling a
  generator function runs none of its body and returns the generator object;
  \<open>iterate\<close> runs the body to its end.
\<close>

datatype 'a generator = Generator "env \<Rightarrow> state \<Rightarrow> 'a gen \<times> state"

definition callGenerator :: "('x \<Rightarrow> 'a generator) \<Rightarrow> 'x \<Rightarrow> state \<Rightarrow> (error + 'a generator) \<times> state" where
  "callGenerator f x st = (Inr (f x), st)"

fun iterate :: "'a generator \<Rightarrow> env \<Rightarrow> state \<Rightarrow> 'a gen \<times> state" where
  "iterate (Generator body) env st = body env st"

text \<open>What the first \<^verbatim>\<open>next\<close> of a generator gives.\<close>

datatype 'a step = Yields 'a | Raises error | StopIteration

fun firstStep :: "'a gen \<Rightarrow> 'a step" where
  "firstStep (x # xs, e) = Yields x"
| "firstStep ([], Some e) = Raises e"
| "firstStep ([], None) = StopIteration"

definition getDriversForConnectedUsbDevices :: "candidate generator" where
  "getDriversForConnectedUsbDevices =
     Generator (\<lambda>env st.
       (case listUsbDevices env st of (usb, st1) \<Rightarrow>
        (case listHidDevices env st1 of (hid, st2) \<Rightarrow>
         (case listComPorts env st2 of (com, st3) \<Rightarrow>
            (matchAllUsb (driverDevices st3) (usbDevs usb hid com), st3)))))"

definition callable :: "entry \<Rightarrow> bool" where
  "callable e = (case e of MatchFunc f \<Rightarrow> True | Ids s \<Rightarrow> False)"

text \<open>
  The inner loop of \<^verbatim>\<open>getDriversForPossibleBluetoothDevices\<close> for one device. Reading
  \<^verbatim>\<open>devs[KEY_BLUETOOTH]\<close> inserts an empty set in the dictionary of a driver that has no
  such key.
\<close>

fun btMatchDrivers :: "DeviceMatch \<Rightarrow> registry \<Rightarrow> candidate list \<times> registry" where
  "btMatchDrivers match [] = ([], [])"
| "btMatchDrivers match ((driver, devs) # rest) =
     (case getDefault KEY_BLUETOOTH devs of (matchFunc, devs1) \<Rightarrow>
      (case btMatchDrivers match rest of (ys, rest1) \<Rightarrow>
         ((case matchFunc of
             Ids s \<Rightarrow> []
           | MatchFunc f \<Rightarrow> (if f match then [(driver, match)] else [])) @ ys,
          (driver, devs1) # rest1)))"

fun matchAllBluetooth :: "DeviceMatch list \<Rightarrow> registry \<Rightarrow> candidate list \<times> registry" where
  "matchAllBluetooth [] reg = ([], reg)"
| "matchAllBluetooth (match # ms) reg =
     (case btMatchDrivers match reg of (ys, reg1) \<Rightarrow>
      (case matchAllBluetooth ms reg1 of (zs, reg2) \<Rightarrow> (ys @ zs, reg2)))"

text \<open>The devices of the Bluetooth functions: the serial ports that have a Bluetooth name.\<close>

definition btDevs :: "portInfo list \<Rightarrow> DeviceMatch gen" where
  "btDevs com =
     genexp (\<lambda>port. ''bluetoothName'' \<in> dom port)
       (newDeviceMatch KEY_SERIAL ''bluetoothName'' ''port'') com"

text \<open>
  \<^verbatim>\<open>getDriversForPossibleBluetoothDevices\<close> builds the list of devices first (a list
  comprehension), so a \<^verbatim>\<open>KeyError\<close> there comes before any item.
\<close>

definition getDriversForPossibleBluetoothDevices :: "candidate generator" where
  "getDriversForPossibleBluetoothDevices =
     Generator (\<lambda>env st.
       (case listComPorts env st of (com, st1) \<Rightarrow>
        (case btDevs com of
           (ms, Some e) \<Rightarrow> (([], Some e), st1)
         | (ms, None) \<Rightarrow>
            (case matchAllBluetooth ms (driverDevices st1) of (ys, reg1) \<Rightarrow>
               ((ys, None), st1\<lparr>driverDevices := reg1\<rparr>)))))"

definition getConnectedUsbDevicesForDriver :: "string \<Rightarrow> DeviceMatch generator" where
  "getConnectedUsbDevicesForDriver driver =
     Generator (\<lambda>env st.
       (case map_of (driverDevices st) driver of
          None \<Rightarrow> (([], Some KeyError), st)
        | Some devs \<Rightarrow>
           (case listUsbDevices env st of (usb, st1) \<Rightarrow>
            (case listHidDevices env st1 of (hid, st2) \<Rightarrow>
             (case listComPorts env st2 of (com, st3) \<Rightarrow>
                (matchUsbForDriver devs (usbDevs usb hid com), st3))))))"

definition getPossibleBluetoothDevicesForDriver :: "string \<Rightarrow> DeviceMatch generator" where
  "getPossibleBluetoothDevicesForDriver driver =
     Generator (\<lambda>env st.
       (case map_of (driverDevices st) driver of
          None \<Rightarrow> (([], Some KeyError), st)
        | Some devs \<Rightarrow>
           (case getDefault KEY_BLUETOOTH devs of (matchFunc, devs1) \<Rightarrow>
            (let st1 = st\<lparr>driverDevices := AList.update driver devs1 (driverDevices st)\<rparr> in
             (case matchFunc of
                Ids s \<Rightarrow> (([], None), st1)
              | MatchFunc f \<Rightarrow>
                 (case listComPorts env st1 of (com, st2) \<Rightarrow>
                    (forYield (fst (btDevs com)) (snd (btDevs com))
                       (\<lambda>match. if f match then ([match], None) else ([], None)), st2)))))))"

text \<open>
  \<^verbatim>\<open>arePossibleDevicesForDriver\<close>: \<^verbatim>\<open>bool(next(itertools.chain(g1, g2), None))\<close>. The
  second generator is started only when the first one ends without an item; an
  exception of either comes out of \<^verbatim>\<open>next\<close>; a \<^verbatim>\<open>DeviceMatch\<close> is a non-empty tuple,
  hence true.
\<close>

definition arePossibleDevicesForDriver :: "string \<Rightarrow> env \<Rightarrow> state \<Rightarrow> (error + bool) \<times> state" where
  "arePossibleDevicesForDriver driver env st =
     (case iterate (getConnectedUsbDevicesForDriver driver) env st of (g1, st1) \<Rightarrow>
      (case firstStep g1 of
         Yields m \<Rightarrow> (Inr True, st1)
       | Raises e \<Rightarrow> (Inl e, st1)
       | StopIteration \<Rightarrow>
          (case iterate (getPossibleBluetoothDevicesForDriver driver) env st1 of (g2, st2) \<Rightarrow>
           (case firstStep g2 of
              Yields m \<Rightarrow> (Inr True, st2)
            | Raises e \<Rightarrow> (Inl e, st2)
            | StopIteration \<Rightarrow> (Inr False, st2)))))"

subsection \<open>The Detector\<close>

text \<open>How a pass ended.\<close>

datatype exit = Cancelled | Activated | Finished | Raised error

text \<open>
  \<^verbatim>\<open>_startBgScan\<close>: a new stop event, the two flags, and either the waitable timer or
  the queue of the background thread.
\<close>

definition startBgScan :: "bool \<Rightarrow> bool \<Rightarrow> nat \<Rightarrow> state \<Rightarrow> state" where
  "startBgScan usb bluetooth callAfter st =
     (let st1 = st\<lparr>stopEvent := False, detectUsb := usb, detectBluetooth := bluetooth\<rparr> in
      if callAfter \<noteq> 0 then
        st1\<lparr>pollTimer := Some callAfter, trace := trace st1 @ [SetWaitableTimer callAfter]\<rparr>
      else st1\<lparr>trace := trace st1 @ [QueueApc]\<rparr>)"

text \<open>\<^verbatim>\<open>_stopBgScan\<close>: the result is the exception raised, if any, and the state.\<close>

definition stopBgScan :: "env \<Rightarrow> state \<Rightarrow> error option \<times> state" where
  "stopBgScan env st =
     (let st1 = st\<lparr>stopEvent := True\<rparr> in
      if pollTimerHandle st1 \<noteq> 0 then
        (let ok = cancelSucceeds env (length (trace st1));
             st2 = st1\<lparr>trace := trace st1 @ [CancelWaitableTimer ok]\<rparr> in
         if \<not> ok then (Some WinError, st2) else (None, st2\<lparr>pollTimer := None\<rparr>))
      else (None, st1))"

text \<open>The \<^verbatim>\<open>for\<close> loop of the USB part: \<open>Some\<close> when the function returned in the loop.\<close>

fun usbLoop :: "env \<Rightarrow> bool \<Rightarrow> candidate list \<Rightarrow> state \<Rightarrow> exit option \<times> state" where
  "usbLoop env ev [] st = (None, st)"
| "usbLoop env ev ((driver, match) # rest) st =
     (case isSet env ev st of
        (True, st1) \<Rightarrow> (Some Cancelled, st1)
      | (False, st1) \<Rightarrow>
         (case setDisplayByName env driver match st1 of
            (True, st2) \<Rightarrow> (Some Activated, st2)
          | (False, st2) \<Rightarrow> usbLoop env ev rest st2))"

text \<open>
  The USB part of \<^verbatim>\<open>_bgScan\<close>. The generator is consumed by the loop; the enumerations
  happen when the loop asks for the first item, and an exception of the generator comes
  after the candidates it yielded have been tried.
\<close>

definition usbStage :: "env \<Rightarrow> bool \<Rightarrow> state \<Rightarrow> exit option \<times> state" where
  "usbStage env ev st =
     (case isSet env ev st of
        (True, st1) \<Rightarrow> (Some Cancelled, st1)
      | (False, st1) \<Rightarrow>
         (case iterate getDriversForConnectedUsbDevices env st1 of ((cands, err), st2) \<Rightarrow>
          (case usbLoop env ev cands st2 of
             (Some x, st3) \<Rightarrow> (Some x, st3)
           | (None, st3) \<Rightarrow>
              (case err of Some e \<Rightarrow> (Some (Raised e), st3) | None \<Rightarrow> (None, st3)))))"

text \<open>
  The \<^verbatim>\<open>for\<close> loop of the Bluetooth part. \<open>fresh\<close> is \<^verbatim>\<open>btComsCache is not btComs\<close>:
  true when the candidates were computed in this pass and the cache is a new list, false
  when both names refer to the list of \<^verbatim>\<open>self._btComs\<close>. The result is \<open>Cancelled\<close>
  when the function returned in the loop, \<open>Activated\<close> when the loop was left by
  \<^verbatim>\<open>break\<close>, \<open>Finished\<close> when it ran to its end, with the cache.
\<close>

fun btLoop :: "env \<Rightarrow> bool \<Rightarrow> bool \<Rightarrow> candidate list \<Rightarrow> candidate list \<Rightarrow> state
    \<Rightarrow> (exit \<times> candidate list) \<times> state" where
  "btLoop env ev fresh [] btComsCache st = ((Finished, btComsCache), st)"
| "btLoop env ev fresh ((driver, match) # rest) btComsCache st =
     (case isSet env ev st of
        (True, st1) \<Rightarrow> ((Cancelled, btComsCache), st1)
      | (False, st1) \<Rightarrow>
         (let cache1 = (if fresh then btComsCache @ [(driver, match)] else btComsCache) in
          (case setDisplayByName env driver match st1 of
             (True, st2) \<Rightarrow> ((Activated, cache1), st2)
           | (False, st2) \<Rightarrow> btLoop env ev fresh rest cache1 st2)))"

text \<open>What follows the loop of the Bluetooth part.\<close>

definition btFinish :: "env \<Rightarrow> bool \<Rightarrow> bool \<Rightarrow> exit \<Rightarrow> candidate list \<Rightarrow> state \<Rightarrow> exit \<times> state" where
  "btFinish env ev fresh x btComsCache st =
     (case isSet env ev st of
        (True, st1) \<Rightarrow> (Cancelled, st1)
      | (False, st1) \<Rightarrow>
         (let st2 = (if fresh then st1\<lparr>btComs := Some btComsCache\<rparr> else st1) in
          if btComsCache \<noteq> [] then (x, startBgScan False True POLL_INTERVAL st2)
          else (x, st2)))"

text \<open>
  The candidates of the Bluetooth part and the list that will be the cache: computed now,
  with a new empty list for the cache, when \<^verbatim>\<open>self._btComs\<close> is \<^verbatim>\<open>None\<close>, else the
  list of \<^verbatim>\<open>self._btComs\<close> for both. The third component is
  \<^verbatim>\<open>btComsCache is not btComs\<close>. An exception of the generator comes out of \<^verbatim>\<open>list\<close>.
\<close>

definition btCandidates :: "env \<Rightarrow> state
    \<Rightarrow> (error + candidate list \<times> candidate list \<times> bool) \<times> state" where
  "btCandidates env st =
     (case btComs st of
        None \<Rightarrow>
          (case iterate getDriversForPossibleBluetoothDevices env st of
             ((cands, Some e), st1) \<Rightarrow> (Inl e, st1)
           | ((cands, None), st1) \<Rightarrow> (Inr (cands, [], True), st1))
      | Some cached \<Rightarrow> (Inr (cached, cached, False), st))"

definition btStage :: "env \<Rightarrow> bool \<Rightarrow> state \<Rightarrow> exit \<times> state" where
  "btStage env ev st =
     (case isSet env ev st of
        (True, st1) \<Rightarrow> (Cancelled, st1)
      | (False, st1) \<Rightarrow>
         (case btCandidates env st1 of
            (Inl e, st2) \<Rightarrow> (Raised e, st2)
          | (Inr (cands, btComsCache, fresh), st2) \<Rightarrow>
             (case btLoop env ev fresh cands btComsCache st2 of
                ((Cancelled, cache), st3) \<Rightarrow> (Cancelled, st3)
              | ((x, cache), st3) \<Rightarrow> btFinish env ev fresh x cache st3)))"

text \<open>\<^verbatim>\<open>_bgScan\<close>: one pass.\<close>

definition bgScan :: "env \<Rightarrow> state \<Rightarrow> exit \<times> state" where
  "bgScan env st =
     (let ev = stopEvent st; usb = detectUsb st; bluetooth = detectBluetooth st in
      (case (if usb then usbStage env ev st else (None, st)) of
         (Some x, st1) \<Rightarrow> (x, st1)
       | (None, st1) \<Rightarrow> (if bluetooth then btStage env ev st1 else (Finished, st1))))"

definition rescan :: "env \<Rightarrow> state \<Rightarrow> error option \<times> state" where
  "rescan env st =
     (case stopBgScan env st of
        (Some e, st1) \<Rightarrow> (Some e, st1)
      | (None, st1) \<Rightarrow> (None, startBgScan True True 0 (st1\<lparr>btComs := None\<rparr>)))"


subsection \<open>Registries built by the registration functions\<close>

text \<open>
  The module fills the registry when it is imported, by a sequence of calls to the
  \<^verbatim>\<open>add*\<close> functions (its section "Detection data"); add-ons do the same. An exception
  ends the sequence.
\<close>

datatype registration =
    AddUsb string string "pval set"
  | AddBluetooth string "DeviceMatch \<Rightarrow> bool"

fun register :: "registration list \<Rightarrow> registry \<Rightarrow> error + registry" where
  "register [] reg = Inr reg"
| "register (AddUsb driver type ids # rs) reg =
     (case addUsbDevices driver type ids reg of
        Inl e \<Rightarrow> Inl e
      | Inr reg1 \<Rightarrow> register rs reg1)"
| "register (AddBluetooth driver matchFunc # rs) reg =
     register rs (addBluetoothDevices driver matchFunc reg)"

text \<open>
  The shape of a registry: the keys of each dictionary are distinct, and a match function
  is stored under \<^verbatim>\<open>KEY_BLUETOOTH\<close> only.
\<close>

definition wfDevs :: "devs \<Rightarrow> bool" where
  "wfDevs devs \<longleftrightarrow>
     distinct (map fst devs) \<and> list_all (\<lambda>(key, e). key = KEY_BLUETOOTH \<or> \<not> callable e) devs"

definition wfRegistry :: "registry \<Rightarrow> bool" where
  "wfRegistry reg \<longleftrightarrow> distinct (map fst reg) \<and> list_all (\<lambda>(driver, devs). wfDevs devs) reg"

text \<open>The ids stored for a driver under a key (none when a function is stored there).\<close>

definition devIds :: "devs \<Rightarrow> string \<Rightarrow> pval set" where
  "devIds devs key = (case map_of devs key of Some (Ids s) \<Rightarrow> s | _ \<Rightarrow> {})"

definition idsOf :: "registry \<Rightarrow> string \<Rightarrow> string \<Rightarrow> pval set" where
  "idsOf reg driver key =
     (case map_of reg driver of None \<Rightarrow> {} | Some devs \<Rightarrow> devIds devs key)"

text \<open>The match function stored for a driver, if one is.\<close>

definition matchFuncOf :: "registry \<Rightarrow> string \<Rightarrow> (DeviceMatch \<Rightarrow> bool) option" where
  "matchFuncOf reg driver =
     (case map_of reg driver of
        None \<Rightarrow> None
      | Some devs \<Rightarrow> (case map_of devs KEY_BLUETOOTH of Some (MatchFunc f) \<Rightarrow> Some f | _ \<Rightarrow> None))"

text \<open>The last match function that a sequence of registrations stores for a driver.\<close>

fun lastMatchFunc :: "registration list \<Rightarrow> string \<Rightarrow> (DeviceMatch \<Rightarrow> bool) option" where
  "lastMatchFunc [] driver = None"
| "lastMatchFunc (AddUsb d type ids # rs) driver = lastMatchFunc rs driver"
| "lastMatchFunc (AddBluetooth d matchFunc # rs) driver =
     (case lastMatchFunc rs driver of
        Some f \<Rightarrow> Some f
      | None \<Rightarrow> (if d = driver then Some matchFunc else None))"

text \<open>The ids that a sequence of registrations gives a driver under a key.\<close>

definition registeredIds :: "registration list \<Rightarrow> string \<Rightarrow> string \<Rightarrow> pval set" where
  "registeredIds rs driver key = {x. \<exists>ids. AddUsb driver key ids \<in> set rs \<and> x \<in> ids}"

text \<open>The drivers that a sequence of registrations names.\<close>

fun registeredDrivers :: "registration list \<Rightarrow> string set" where
  "registeredDrivers [] = {}"
| "registeredDrivers (AddUsb d type ids # rs) = insert d (registeredDrivers rs)"
| "registeredDrivers (AddBluetooth d matchFunc # rs) = insert d (registeredDrivers rs)"

text \<open>
  The devices that the USB functions build when they are run in state \<open>st\<close>: the three
  enumerations are the next three external calls.
\<close>

definition enumeratedUsb :: "env \<Rightarrow> state \<Rightarrow> DeviceMatch gen" where
  "enumeratedUsb env st =
     usbDevs (usbDevicesAt env (length (trace st)))
       (hidDevicesAt env (Suc (length (trace st))))
       (comPortsAt env (Suc (Suc (length (trace st)))))"

text \<open>The devices that the Bluetooth functions build when they are run in state \<open>st\<close>.\<close>

definition enumeratedBluetooth :: "env \<Rightarrow> state \<Rightarrow> DeviceMatch gen" where
  "enumeratedBluetooth env st = btDevs (comPortsAt env (length (trace st)))"

text \<open>
  \<^verbatim>\<open>Detector.__init__\<close>, with the handle that \<^verbatim>\<open>createWaitableTimer\<close> returned: the
  initial pass is queued.
\<close>

definition detectorInit :: "registry \<Rightarrow> nat \<Rightarrow> state" where
  "detectorInit reg handle =
     startBgScan True True 0
       \<lparr>driverDevices = reg, btComs = None, detectUsb = False, detectBluetooth = False,
        stopEvent = False, pollTimerHandle = handle, pollTimer = None,
        trace = [RegisterCallback]\<rparr>"

subsection \<open>Example data\<close>

text \<open>
  \<^verbatim>\<open>m.id.startswith(prefix)\<close>. The id of a Bluetooth device is the name of the port,
  a string.
\<close>

fun startswith :: "pval \<Rightarrow> string \<Rightarrow> bool" where
  "startswith (Str s) prefix = (take (length prefix) s = prefix)"
| "startswith (Num n) prefix = False"

text \<open>
  The registrations of the drivers \<^verbatim>\<open>brailliantB\<close> and \<^verbatim>\<open>superBrl\<close> in the module's
  section "Detection data".
\<close>

definition detectionData :: "registration list" where
  "detectionData =
     [AddUsb ''brailliantB'' KEY_HID {Str ''VID_1C71&PID_C006''},
      AddUsb ''brailliantB'' KEY_CUSTOM {Str ''VID_1C71&PID_C005''},
      AddBluetooth ''brailliantB''
        (\<lambda>m. startswith (matchId m) ''Brailliant B'' \<or> matchId m = Str ''Brailliant 80''),
      AddUsb ''superBrl'' KEY_SERIAL {Str ''VID_10C4&PID_EA60''}]"

definition exampleRegistry :: registry where
  "exampleRegistry =
     [(''brailliantB'',
        [(KEY_HID, Ids {Str ''VID_1C71&PID_C006''}),
         (KEY_CUSTOM, Ids {Str ''VID_1C71&PID_C005''}),
         (KEY_BLUETOOTH,
            MatchFunc (\<lambda>m. startswith (matchId m) ''Brailliant B'' \<or> matchId m = Str ''Brailliant 80''))]),
      (''superBrl'', [(KEY_SERIAL, Ids {Str ''VID_10C4&PID_EA60''})])]"

text \<open>A HID device, a serial port with a Bluetooth name, and a custom device without id.\<close>

definition hidPort :: portInfo where
  "hidPort = [''usbID'' \<mapsto> Str ''VID_1C71&PID_C006'', ''devicePath'' \<mapsto> Str ''hid0'']"

definition btPort :: portInfo where
  "btPort = [''port'' \<mapsto> Str ''COM3'', ''bluetoothName'' \<mapsto> Str ''Brailliant B80'']"

definition badUsbPort :: portInfo where
  "badUsbPort = [''devicePath'' \<mapsto> Str ''usb0'']"

definition hidMatch :: DeviceMatch where
  "hidMatch = \<lparr>matchType = KEY_HID, matchId = Str ''VID_1C71&PID_C006'',
     matchPort = Str ''hid0'', deviceInfo = hidPort\<rparr>"

definition btMatch :: DeviceMatch where
  "btMatch = \<lparr>matchType = KEY_SERIAL, matchId = Str ''Brailliant B80'',
     matchPort = Str ''COM3'', deviceInfo = btPort\<rparr>"

text \<open>
  An environment with the HID device and the Bluetooth port, in which no activation
  succeeds and nobody stops the scan.
\<close>

definition exampleEnv :: env where
  "exampleEnv =
     \<lparr>usbDevicesAt = (\<lambda>t. []), hidDevicesAt = (\<lambda>t. [hidPort]), comPortsAt = (\<lambda>t. [btPort]),
      activates = (\<lambda>t driver match. False), stopAt = None, cancelSucceeds = (\<lambda>t. True)\<rparr>"

definition exampleState :: state where
  "exampleState = detectorInit exampleRegistry 1"

definition badEnv :: env where
  "badEnv = exampleEnv\<lparr>usbDevicesAt := (\<lambda>t. [badUsbPort])\<rparr>"

text \<open>
  Whether the dictionary of a driver holds a match function that accepts the device.
\<close>

definition btAccepts :: "devs \<Rightarrow> DeviceMatch \<Rightarrow> bool" where
  "btAccepts devs m = (case map_of devs KEY_BLUETOOTH of Some (MatchFunc f) \<Rightarrow> f m | _ \<Rightarrow> False)"

text \<open>
  The registry after \<^verbatim>\<open>devs[KEY_BLUETOOTH]\<close> has been read in the dictionary of every
  driver.
\<close>

definition touchBluetooth :: "registry \<Rightarrow> registry" where
  "touchBluetooth reg = map (\<lambda>(driver, devs). (driver, snd (getDefault KEY_BLUETOOTH devs))) reg"

text \<open>
  The only difference between two registries is that some drivers without the key
  \<^verbatim>\<open>KEY_BLUETOOTH\<close> have got it, with an empty set.
\<close>

definition onlyDefaultsInserted :: "registry \<Rightarrow> registry \<Rightarrow> bool" where
  "onlyDefaultsInserted reg reg' \<longleftrightarrow>
     list_all2
       (\<lambda>(d, devs) (d', devs').
          d' = d \<and>
          (devs' = devs \<or>
           (map_of devs KEY_BLUETOOTH = None \<and> devs' = devs @ [(KEY_BLUETOOTH, Ids {})])))
       reg reg'"

subsection \<open>Reading the trace\<close>

text \<open>The candidates that were handed to \<^verbatim>\<open>setDisplayByName\<close>, in order.\<close>

fun attempts :: "event list \<Rightarrow> candidate list" where
  "attempts [] = []"
| "attempts (SetDisplayByName driver match ok # es) = (driver, match) # attempts es"
| "attempts (e # es) = attempts es"

text \<open>An event of a loop that goes on: the stop event is not set, or an activation fails.\<close>

fun failedAttempt :: "event \<Rightarrow> bool" where
  "failedAttempt (IsSet b) = (\<not> b)"
| "failedAttempt (SetDisplayByName driver match ok) = (\<not> ok)"
| "failedAttempt e = False"

text \<open>A call to the hardware enumeration.\<close>

fun enumeration :: "event \<Rightarrow> bool" where
  "enumeration ListUsbDevices = True"
| "enumeration ListHidDevices = True"
| "enumeration ListComPorts = True"
| "enumeration e = False"

text \<open>The events that a run from \<open>st\<close> to \<open>st'\<close> added to the trace.\<close>

definition newEvents :: "state \<Rightarrow> state \<Rightarrow> event list" where
  "newEvents st st' = drop (length (trace st)) (trace st')"

definition succeedEnv :: env where
  "succeedEnv = exampleEnv\<lparr>activates := (\<lambda>t driver match. True)\<rparr>"

text \<open>
  The state in which the poll timer starts a pass: the cache holds the Bluetooth
  candidate, and only Bluetooth is scanned.
\<close>

definition pollState :: state where
  "pollState = exampleState\<lparr>btComs := Some [(''brailliantB'', btMatch)], detectUsb := False\<rparr>"

text \<open>
  An environment without USB devices in which every activation succeeds.
\<close>

definition btSucceedEnv :: env where
  "btSucceedEnv = succeedEnv\<lparr>hidDevicesAt := (\<lambda>t. [])\<rparr>"

text \<open>
  An environment in which another thread has set the stop event from the start.
\<close>

definition stoppedEnv :: env where
  "stoppedEnv = exampleEnv\<lparr>stopAt := Some 0\<rparr>"

text \<open>
  A second serial port with a Bluetooth name, and an environment with both ports and no
  USB device, in which another thread sets the stop event at moment 10: in the pass
  that starts in \<open>exampleState\<close>, that is after the first Bluetooth candidate has been
  tried.
\<close>

definition btPort2 :: portInfo where
  "btPort2 = [''port'' \<mapsto> Str ''COM4'', ''bluetoothName'' \<mapsto> Str ''Brailliant 80'']"

definition btMatch2 :: DeviceMatch where
  "btMatch2 = \<lparr>matchType = KEY_SERIAL, matchId = Str ''Brailliant 80'',
     matchPort = Str ''COM4'', deviceInfo = btPort2\<rparr>"

definition cancelEnv :: env where
  "cancelEnv = exampleEnv\<lparr>hidDevicesAt := (\<lambda>t. []), comPortsAt := (\<lambda>t. [btPort, btPort2]),
     stopAt := Some 10\<rparr>"

text \<open>
  Whether the stop event is still clear for another thread at moment \<open>t\<close>: a test made
  at that moment, on an event that was clear when the pass captured it, finds it clear.
\<close>

definition notStoppedBy :: "env \<Rightarrow> nat \<Rightarrow> bool" where
  "notStoppedBy env t = (case stopAt env of None \<Rightarrow> True | Some n \<Rightarrow> t < n)"

text \<open>
  The events of a loop that tries the candidates one after the other, each time finding
  the stop event clear and the activation failing.
\<close>

fun failedTries :: "candidate list \<Rightarrow> event list" where
  "failedTries [] = []"
| "failedTries ((driver, match) # cands) =
     IsSet False # SetDisplayByName driver match False # failedTries cands"

text \<open>
  The moments of the USB loop in a pass that starts in \<open>st\<close>: the pass has tested the
  stop event and made three enumeration calls before the loop, and each turn of the
  loop tests the stop event and then tries an activation.
\<close>

definition usbCheckTime :: "state \<Rightarrow> nat \<Rightarrow> nat" where
  "usbCheckTime st i = length (trace st) + 4 + 2 * i"

definition usbAttemptTime :: "state \<Rightarrow> nat \<Rightarrow> nat" where
  "usbAttemptTime st i = length (trace st) + 5 + 2 * i"

text \<open>
  A second HID device of the same model, an environment that has both HID devices and
  the Bluetooth port and in which every activation succeeds, and one in which only the
  second HID device can be activated.
\<close>

definition hidPort2 :: portInfo where
  "hidPort2 = [''usbID'' \<mapsto> Str ''VID_1C71&PID_C006'', ''devicePath'' \<mapsto> Str ''hid1'']"

definition hidMatch2 :: DeviceMatch where
  "hidMatch2 = \<lparr>matchType = KEY_HID, matchId = Str ''VID_1C71&PID_C006'',
     matchPort = Str ''hid1'', deviceInfo = hidPort2\<rparr>"

definition twoHidEnv :: env where
  "twoHidEnv = exampleEnv\<lparr>hidDevicesAt := (\<lambda>t. [hidPort, hidPort2]),
     activates := (\<lambda>t driver match. True)\<rparr>"

definition secondHidEnv :: env where
  "secondHidEnv = exampleEnv\<lparr>hidDevicesAt := (\<lambda>t. [hidPort, hidPort2]),
     activates := (\<lambda>t driver match. matchPort match = Str ''hid1'')\<rparr>"






text \<open>
  A USB part in which nothing is activated: when the pass scans USB, the USB function
  yields the candidates \<open>ucands\<close> and raises no exception, and the activation of each of
  them returns false. A pass that does not scan USB has no USB candidates.
\<close>

definition usbPartFails :: "env \<Rightarrow> state \<Rightarrow> candidate list \<Rightarrow> bool" where
  "usbPartFails env st ucands =
     (if detectUsb st then
        fst (iterate getDriversForConnectedUsbDevices env (st\<lparr>trace := trace st @ [IsSet False]\<rparr>)) =
          (ucands, None) \<and>
        (\<forall>i<length ucands.
           \<not> activates env (usbAttemptTime st i) (fst (ucands ! i)) (snd (ucands ! i)))
      else ucands = [])"

text \<open>
  The events of such a USB part, and the state in which the Bluetooth part of the pass
  then starts.
\<close>

definition usbPartEvents :: "state \<Rightarrow> candidate list \<Rightarrow> event list" where
  "usbPartEvents st ucands =
     (if detectUsb st then
        [IsSet False, ListUsbDevices, ListHidDevices, ListComPorts] @ failedTries ucands
      else [])"

definition btPartStart :: "state \<Rightarrow> candidate list \<Rightarrow> state" where
  "btPartStart st ucands = st\<lparr>trace := trace st @ usbPartEvents st ucands\<rparr>"

text \<open>
  The moments of the loop in a Bluetooth part that starts in \<open>s\<close> with the cache not yet
  computed: the part has tested the stop event and called \<^verbatim>\<open>listComPorts\<close> before the
  loop.
\<close>

definition freshCheckTime :: "state \<Rightarrow> nat \<Rightarrow> nat" where
  "freshCheckTime s i = length (trace s) + 2 + 2 * i"

definition freshAttemptTime :: "state \<Rightarrow> nat \<Rightarrow> nat" where
  "freshAttemptTime s i = length (trace s) + 3 + 2 * i"

section \<open>Properties\<close>

subsection \<open>Generators and USB matching\<close>

lemma forYield_no_error:
  "\<forall>x\<in>set xs. snd (body x) = None \<Longrightarrow>
   forYield xs e body = (concat (map (\<lambda>x. fst (body x)) xs), e)"
proof (induction xs)
  case Nil
  then show ?case by simp
next
  case (Cons a xs)
  obtain ys where a: "body a = (ys, None)" using Cons.prems by (cases "body a") auto
  show ?case using Cons a by simp
qed

lemma matchDevs_no_key:
  "matchType m \<notin> fst ` set devs \<Longrightarrow> matchDevs out m devs = ([], None)"
  unfolding matchDevs_def
  by (induction devs) (auto split: prod.splits)

lemma matchDevs_wf:
  assumes "wfDevs devs" and "matchType m \<noteq> KEY_BLUETOOTH"
  shows "matchDevs out m devs =
     ((if matchId m \<in> devIds devs (matchType m) then [out] else []), None)"
  using assms
proof (induction devs)
  case Nil
  then show ?case by (simp add: matchDevs_def devIds_def)
next
  case (Cons a devs)
  obtain k e where a: "a = (k, e)" by (cases a)
  have wf: "wfDevs devs" using Cons.prems(1) by (simp add: wfDevs_def)
  have ih: "matchDevs out m devs =
     ((if matchId m \<in> devIds devs (matchType m) then [out] else []), None)"
    using Cons.IH wf Cons.prems(2) by simp
  show ?case
  proof (cases "matchType m = k")
    case True
    have nk: "matchType m \<notin> fst ` set devs" using Cons.prems(1) True a by (auto simp: wfDevs_def)
    have rest: "forYield devs None
       (\<lambda>(type, ids).
          if matchType m = type then
            (case contains (matchId m) ids of
               Inl e \<Rightarrow> ([], Some e)
             | Inr b \<Rightarrow> (if b then ([out], None) else ([], None)))
          else ([], None)) = ([], None)"
      using matchDevs_no_key[OF nk, of out] by (simp add: matchDevs_def)
    obtain s where e: "e = Ids s"
      using Cons.prems True a by (cases e) (auto simp: wfDevs_def callable_def)
    show ?thesis using True a e rest
      by (simp add: matchDevs_def contains_def devIds_def)
  next
    case False
    then show ?thesis using a ih by (simp add: matchDevs_def devIds_def)
  qed
qed

lemma genexp_type:
  "x \<in> set (fst (genexp c (newDeviceMatch t a b) ps)) \<Longrightarrow> matchType x = t"
  by (induction ps)
    (auto simp: newDeviceMatch_def getitem_def split: if_splits sum.splits prod.splits option.splits)

lemma chain_mem: "x \<in> set (fst (chain g h)) \<Longrightarrow> x \<in> set (fst g) \<or> x \<in> set (fst h)"
  by (cases g; cases "snd g") auto

lemma usbDevs_type:
  assumes "m \<in> set (fst (usbDevs usb hid com))"
  shows "matchType m \<noteq> KEY_BLUETOOTH"
proof -
  let ?a = "genexp (\<lambda>port. True) (newDeviceMatch KEY_CUSTOM ''usbID'' ''devicePath'') usb"
  let ?b = "genexp (\<lambda>port. ''usbID'' \<in> dom port) (newDeviceMatch KEY_HID ''usbID'' ''devicePath'') hid"
  let ?c = "genexp (\<lambda>port. ''usbID'' \<in> dom port) (newDeviceMatch KEY_SERIAL ''usbID'' ''port'') com"
  have "m \<in> set (fst (chain ?a (chain ?b ?c)))" using assms by (simp only: usbDevs_def)
  then have "m \<in> set (fst ?a) \<or> m \<in> set (fst (chain ?b ?c))" by (rule chain_mem)
  then have "m \<in> set (fst ?a) \<or> m \<in> set (fst ?b) \<or> m \<in> set (fst ?c)"
    using chain_mem[of m ?b ?c] by blast
  then have "matchType m = KEY_CUSTOM \<or> matchType m = KEY_HID \<or> matchType m = KEY_SERIAL"
    using genexp_type[of m "\<lambda>port. True" KEY_CUSTOM "''usbID''" "''devicePath''" usb]
      genexp_type[of m "\<lambda>port. ''usbID'' \<in> dom port" KEY_HID "''usbID''" "''devicePath''" hid]
      genexp_type[of m "\<lambda>port. ''usbID'' \<in> dom port" KEY_SERIAL "''usbID''" "''port''" com]
    by blast
  then show ?thesis
    by (auto simp: KEY_CUSTOM_def KEY_HID_def KEY_SERIAL_def KEY_BLUETOOTH_def)
qed

lemma iterate_usb_all:
  "iterate getDriversForConnectedUsbDevices env st =
     (matchAllUsb (driverDevices st) (enumeratedUsb env st),
      st\<lparr>trace := trace st @ [ListUsbDevices, ListHidDevices, ListComPorts]\<rparr>)"
  by (simp add: getDriversForConnectedUsbDevices_def listUsbDevices_def listHidDevices_def
      listComPorts_def enumeratedUsb_def)

lemma iterate_usb_driver:
  "iterate (getConnectedUsbDevicesForDriver driver) env st =
     (case map_of (driverDevices st) driver of
        None \<Rightarrow> (([], Some KeyError), st)
      | Some devs \<Rightarrow>
         (matchUsbForDriver devs (enumeratedUsb env st),
          st\<lparr>trace := trace st @ [ListUsbDevices, ListHidDevices, ListComPorts]\<rparr>))"
  by (simp add: getConnectedUsbDevicesForDriver_def listUsbDevices_def listHidDevices_def
      listComPorts_def enumeratedUsb_def split: option.splits)

lemma matchUsbForDriver_wf:
  assumes "wfDevs devs" and "\<forall>m\<in>set (fst g). matchType m \<noteq> KEY_BLUETOOTH"
  shows "matchUsbForDriver devs g =
     (filter (\<lambda>m. matchId m \<in> devIds devs (matchType m)) (fst g), snd g)"
proof -
  have "\<forall>m\<in>set (fst g). snd (matchDevs m m devs) = None"
    using assms by (simp add: matchDevs_wf)
  then have "matchUsbForDriver devs g = (concat (map (\<lambda>m. fst (matchDevs m m devs)) (fst g)), snd g)"
    unfolding matchUsbForDriver_def by (rule forYield_no_error)
  moreover have "concat (map (\<lambda>m. fst (matchDevs m m devs)) xs) =
      filter (\<lambda>m. matchId m \<in> devIds devs (matchType m)) xs"
    if "\<forall>m\<in>set xs. matchType m \<noteq> KEY_BLUETOOTH" for xs
    using that assms(1) by (induction xs) (simp_all add: matchDevs_wf)
  ultimately show ?thesis using assms(2) by simp
qed


lemma matchDrivers_wf:
  assumes "list_all (\<lambda>(driver, devs). wfDevs devs) reg" and "matchType m \<noteq> KEY_BLUETOOTH"
  shows "forYield reg None (\<lambda>(driver, devs). matchDevs (driver, m) m devs) =
     (map (\<lambda>(driver, devs). (driver, m))
        (filter (\<lambda>(driver, devs). matchId m \<in> devIds devs (matchType m)) reg), None)"
  using assms
proof (induction reg)
  case Nil
  then show ?case by simp
next
  case (Cons a reg)
  obtain d devs where a: "a = (d, devs)" by (cases a)
  have wf: "wfDevs devs" using Cons.prems(1) a by simp
  have ih: "forYield reg None (\<lambda>(driver, devs). matchDevs (driver, m) m devs) =
     (map (\<lambda>(driver, devs). (driver, m))
        (filter (\<lambda>(driver, devs). matchId m \<in> devIds devs (matchType m)) reg), None)"
    using Cons by simp
  show ?case using a ih matchDevs_wf[OF wf Cons.prems(2), of "(d, m)"] by simp
qed

lemma matchDrivers_mem:
  assumes "list_all (\<lambda>(driver, devs). wfDevs devs) reg" and "matchType m \<noteq> KEY_BLUETOOTH"
    and "distinct (map fst reg)"
  shows "(d, m') \<in> set (fst (forYield reg None (\<lambda>(driver, devs). matchDevs (driver, m) m devs)))
     \<longleftrightarrow> m' = m \<and> d \<in> fst ` set reg \<and> matchId m \<in> idsOf reg d (matchType m)"
proof -
  have "(d, m') \<in> set (fst (forYield reg None (\<lambda>(driver, devs). matchDevs (driver, m) m devs)))
     \<longleftrightarrow> m' = m \<and> (\<exists>devs. (d, devs) \<in> set reg \<and> matchId m \<in> devIds devs (matchType m))"
    unfolding matchDrivers_wf[OF assms(1,2)] by auto
  also have "\<dots> \<longleftrightarrow> m' = m \<and> d \<in> fst ` set reg \<and> matchId m \<in> idsOf reg d (matchType m)"
  proof (cases "map_of reg d")
    case None
    then have "d \<notin> fst ` set reg" by (simp add: map_of_eq_None_iff)
    then show ?thesis by force
  next
    case (Some devs)
    then have "\<And>devs'. (d, devs') \<in> set reg \<longleftrightarrow> devs' = devs"
      using assms(3) by (metis map_of_SomeD map_of_is_SomeI option.inject)
    moreover have "(d, devs) \<in> set reg" using Some by (rule map_of_SomeD)
    moreover from this have "d \<in> fst ` set reg" by force
    ultimately show ?thesis using Some by (simp add: idsOf_def)
  qed
  finally show ?thesis .
qed


lemma matchAllUsb_wf_snd:
  assumes "wfRegistry reg" and "\<forall>m\<in>set (fst g). matchType m \<noteq> KEY_BLUETOOTH"
  shows "matchAllUsb reg g =
     (concat (map (\<lambda>m. fst (forYield reg None (\<lambda>(driver, devs). matchDevs (driver, m) m devs))) (fst g)), snd g)"
proof -
  have la: "list_all (\<lambda>(driver, devs). wfDevs devs) reg"
    using assms(1) by (simp add: wfRegistry_def)
  have noerr: "\<forall>m\<in>set (fst g).
      snd (forYield reg None (\<lambda>(driver, devs). matchDevs (driver, m) m devs)) = None"
    using assms(2) la by (simp add: matchDrivers_wf)
  show ?thesis unfolding matchAllUsb_def using noerr by (rule forYield_no_error)
qed

lemma matchAllUsb_wf_mem:
  assumes "wfRegistry reg" and "\<forall>m\<in>set (fst g). matchType m \<noteq> KEY_BLUETOOTH"
  shows "(d, m) \<in> set (fst (matchAllUsb reg g)) \<longleftrightarrow>
         m \<in> set (fst g) \<and> d \<in> fst ` set reg \<and> matchId m \<in> idsOf reg d (matchType m)"
proof -
  have la: "list_all (\<lambda>(driver, devs). wfDevs devs) reg" and dist: "distinct (map fst reg)"
    using assms(1) by (simp_all add: wfRegistry_def)
  have "(d, m) \<in> set (fst (matchAllUsb reg g)) \<longleftrightarrow>
      (\<exists>m'\<in>set (fst g). (d, m) \<in> set (fst (forYield reg None (\<lambda>(driver, devs). matchDevs (driver, m') m' devs))))"
    unfolding matchAllUsb_wf_snd[OF assms] by simp
  also have "\<dots> \<longleftrightarrow> (\<exists>m'\<in>set (fst g). m = m' \<and> d \<in> fst ` set reg \<and> matchId m' \<in> idsOf reg d (matchType m'))"
    using matchDrivers_mem[OF la _ dist] assms(2) by blast
  also have "\<dots> \<longleftrightarrow> m \<in> set (fst g) \<and> d \<in> fst ` set reg \<and> matchId m \<in> idsOf reg d (matchType m)"
    by blast
  finally show ?thesis .
qed

subsection \<open>Registration keeps the registry well formed\<close>

lemma list_all_update:
  "list_all P al \<Longrightarrow> P (k, v) \<Longrightarrow> list_all P (AList.update k v al)"
  by (induction al) auto

lemma wfDevs_update_ids: "wfDevs devs \<Longrightarrow> wfDevs (AList.update key (Ids s) devs)"
  by (simp add: wfDevs_def AList.distinct_update list_all_update callable_def)

lemma wfDevs_update_bluetooth:
  "wfDevs devs \<Longrightarrow> wfDevs (AList.update KEY_BLUETOOTH e devs)"
  by (simp add: wfDevs_def AList.distinct_update list_all_update)

lemma wfRegistry_update:
  "wfRegistry reg \<Longrightarrow> wfDevs devs \<Longrightarrow> wfRegistry (AList.update driver devs reg)"
  by (simp add: wfRegistry_def AList.distinct_update list_all_update)

lemma wfDevs_lookup:
  assumes "wfRegistry reg" and "map_of reg driver = Some devs"
  shows "wfDevs devs"
proof -
  have "(driver, devs) \<in> set reg" using assms(2) by (rule map_of_SomeD)
  then show ?thesis using assms(1) by (auto simp: wfRegistry_def list_all_iff)
qed

lemma getDriver_wf:
  assumes "wfRegistry reg" and "getDriver driver reg = (devs, reg1)"
  shows "wfRegistry reg1" and "wfDevs devs" and "map_of reg1 driver = Some devs"
    and "\<And>d. d \<noteq> driver \<Longrightarrow> map_of reg1 d = map_of reg d"
    and "map_of reg driver = None \<Longrightarrow> devs = []"
    and "\<And>x. map_of reg driver = Some x \<Longrightarrow> devs = x"
proof -
  show "wfRegistry reg1"
  proof (cases "map_of reg driver")
    case None
    then have "driver \<notin> fst ` set reg" by (simp add: map_of_eq_None_iff)
    then show ?thesis using assms None by (auto simp: getDriver_def wfRegistry_def wfDevs_def)
  next
    case (Some a)
    then show ?thesis using assms by (auto simp: getDriver_def)
  qed
  show "wfDevs devs"
  proof (cases "map_of reg driver")
    case None
    then show ?thesis using assms by (auto simp: getDriver_def wfDevs_def)
  next
    case (Some a)
    then show ?thesis using assms wfDevs_lookup[OF assms(1) Some] by (auto simp: getDriver_def)
  qed
  show "map_of reg1 driver = Some devs"
    using assms(2) by (auto simp: getDriver_def map_add_def split: option.splits)
  show "\<And>d. d \<noteq> driver \<Longrightarrow> map_of reg1 d = map_of reg d"
    using assms(2) by (auto simp: getDriver_def map_add_def split: option.splits)
  show "map_of reg driver = None \<Longrightarrow> devs = []"
    using assms(2) by (auto simp: getDriver_def)
  show "\<And>x. map_of reg driver = Some x \<Longrightarrow> devs = x"
    using assms(2) by (auto simp: getDriver_def)
qed

lemma getDefault_wf:
  assumes "wfDevs devs" and "getDefault key devs = (e, devs1)"
  shows "wfDevs devs1" and "map_of devs1 key = Some e"
    and "\<And>k. k \<noteq> key \<Longrightarrow> map_of devs1 k = map_of devs k"
    and "map_of devs key = None \<Longrightarrow> e = Ids {}"
    and "\<And>x. map_of devs key = Some x \<Longrightarrow> e = x"
proof -
  show "wfDevs devs1"
  proof (cases "map_of devs key")
    case None
    then have "key \<notin> fst ` set devs" by (simp add: map_of_eq_None_iff)
    then show ?thesis using assms None by (auto simp: getDefault_def wfDevs_def callable_def)
  next
    case (Some a)
    then show ?thesis using assms by (auto simp: getDefault_def)
  qed
  show "map_of devs1 key = Some e"
    using assms(2) by (auto simp: getDefault_def map_add_def split: option.splits)
  show "\<And>k. k \<noteq> key \<Longrightarrow> map_of devs1 k = map_of devs k"
    using assms(2) by (auto simp: getDefault_def map_add_def split: option.splits)
  show "map_of devs key = None \<Longrightarrow> e = Ids {}"
    using assms(2) by (auto simp: getDefault_def)
  show "\<And>x. map_of devs key = Some x \<Longrightarrow> e = x"
    using assms(2) by (auto simp: getDefault_def)
qed

lemma devIds_update:
  "devIds (AList.update key e devs) k =
     (if k = key then (case e of Ids s \<Rightarrow> s | MatchFunc f \<Rightarrow> {}) else devIds devs k)"
  by (simp add: devIds_def AList.update_conv' split: entry.splits)

lemma idsOf_update:
  "idsOf (AList.update driver devs reg) d k =
     (if d = driver then devIds devs k else idsOf reg d k)"
  by (simp add: idsOf_def AList.update_conv')

lemma addUsbDevices_wf:
  assumes "wfRegistry reg" and "addUsbDevices driver key ids reg = Inr reg'"
  shows "wfRegistry reg'"
proof -
  obtain devs reg1 where g: "getDriver driver reg = (devs, reg1)" by (cases "getDriver driver reg")
  obtain e devs1 where d: "getDefault key devs = (e, devs1)" by (cases "getDefault key devs")
  obtain s where e: "e = Ids s" using assms(2) g d
    by (cases e) (simp_all add: addUsbDevices_def)
  have r: "reg' = AList.update driver (AList.update key (Ids (s \<union> ids)) devs1) reg1"
    using assms(2) g d e by (simp add: addUsbDevices_def)
  have "wfDevs devs1" using getDefault_wf(1)[OF getDriver_wf(2)[OF assms(1) g] d] .
  then show ?thesis unfolding r
    by (intro wfRegistry_update wfDevs_update_ids getDriver_wf(1)[OF assms(1) g])
qed

lemma addUsbDevices_idsOf:
  assumes "wfRegistry reg" and "addUsbDevices driver key ids reg = Inr reg'"
  shows "idsOf reg' d k = idsOf reg d k \<union> (if d = driver \<and> k = key then ids else {})"
proof -
  obtain devs reg1 where g: "getDriver driver reg = (devs, reg1)" by (cases "getDriver driver reg")
  obtain e devs1 where df: "getDefault key devs = (e, devs1)" by (cases "getDefault key devs")
  obtain s where e: "e = Ids s" using assms(2) g df
    by (cases e) (simp_all add: addUsbDevices_def)
  have r: "reg' = AList.update driver (AList.update key (Ids (s \<union> ids)) devs1) reg1"
    using assms(2) g df e by (simp add: addUsbDevices_def)
  note gw = getDriver_wf[OF assms(1) g]
  note dw = getDefault_wf[OF gw(2) df]
  have old: "idsOf reg driver k = devIds devs k"
  proof (cases "map_of reg driver")
    case None
    then show ?thesis using gw(5) by (simp add: idsOf_def devIds_def)
  next
    case (Some x)
    then show ?thesis using gw(6) by (simp add: idsOf_def)
  qed
  have s: "devIds devs key = s"
  proof (cases "map_of devs key")
    case None
    then show ?thesis using dw(4) e by (simp add: devIds_def)
  next
    case (Some x)
    then have "x = Ids s" using dw(5) e by simp
    then show ?thesis using Some by (simp add: devIds_def)
  qed
  show ?thesis
  proof (cases "d = driver")
    case False
    then have "idsOf reg1 d k = idsOf reg d k" using gw(4) by (simp add: idsOf_def)
    then show ?thesis unfolding r using False by (simp add: idsOf_update)
  next
    case True
    show ?thesis
    proof (cases "k = key")
      case True
      then show ?thesis unfolding r using \<open>d = driver\<close> old s
        by (simp add: idsOf_update devIds_update)
    next
      case False
      then have "devIds devs1 k = devIds devs k" using dw(3) by (simp add: devIds_def)
      then show ?thesis unfolding r using \<open>d = driver\<close> old False
        by (simp add: idsOf_update devIds_update)
    qed
  qed
qed

lemma addBluetoothDevices_wf:
  assumes "wfRegistry reg"
  shows "wfRegistry (addBluetoothDevices driver f reg)"
proof -
  obtain devs reg1 where g: "getDriver driver reg = (devs, reg1)" by (cases "getDriver driver reg")
  show ?thesis unfolding addBluetoothDevices_def g
    by (simp add: wfRegistry_update wfDevs_update_bluetooth getDriver_wf(1,2)[OF assms g])
qed

lemma addBluetoothDevices_idsOf:
  assumes "wfRegistry reg" and "k \<noteq> KEY_BLUETOOTH"
  shows "idsOf (addBluetoothDevices driver f reg) d k = idsOf reg d k"
proof -
  obtain devs reg1 where g: "getDriver driver reg = (devs, reg1)" by (cases "getDriver driver reg")
  note gw = getDriver_wf[OF assms(1) g]
  have old: "idsOf reg driver k = devIds devs k"
  proof (cases "map_of reg driver")
    case None
    then show ?thesis using gw(5) by (simp add: idsOf_def devIds_def)
  next
    case (Some x)
    then show ?thesis using gw(6) by (simp add: idsOf_def)
  qed
  have r: "addBluetoothDevices driver f reg =
      AList.update driver (AList.update KEY_BLUETOOTH (MatchFunc f) devs) reg1"
    by (simp add: addBluetoothDevices_def g)
  show ?thesis
  proof (cases "d = driver")
    case True
    then show ?thesis unfolding r using assms(2) old by (simp add: idsOf_update devIds_update)
  next
    case False
    then have "idsOf reg1 d k = idsOf reg d k" using gw(4) by (simp add: idsOf_def)
    then show ?thesis unfolding r using False by (simp add: idsOf_update)
  qed
qed

lemma register_wf:
  "wfRegistry reg \<Longrightarrow> register rs reg = Inr reg' \<Longrightarrow> wfRegistry reg'"
proof (induction rs reg rule: register.induct)
  case (1 reg)
  then show ?case by simp
next
  case (2 driver type ids rs reg)
  then show ?case by (auto split: sum.splits dest: addUsbDevices_wf)
next
  case (3 driver matchFunc rs reg)
  then show ?case by (simp add: addBluetoothDevices_wf)
qed

lemma registeredIds_Cons_usb:
  "registeredIds (AddUsb driver key ids # rs) d k =
     (if d = driver \<and> k = key then ids else {}) \<union> registeredIds rs d k"
  by (auto simp: registeredIds_def)

lemma registeredIds_Cons_bt:
  "registeredIds (AddBluetooth driver f # rs) d k = registeredIds rs d k"
  by (auto simp: registeredIds_def)

lemma register_idsOf:
  "wfRegistry reg \<Longrightarrow> register rs reg = Inr reg' \<Longrightarrow> k \<noteq> KEY_BLUETOOTH \<Longrightarrow>
   idsOf reg' d k = idsOf reg d k \<union> registeredIds rs d k"
proof (induction rs reg rule: register.induct)
  case (1 reg)
  then show ?case by (simp add: registeredIds_def)
next
  case (2 driver type ids rs reg)
  obtain reg1 where a: "addUsbDevices driver type ids reg = Inr reg1"
    and r: "register rs reg1 = Inr reg'"
    using "2.prems"(2) by (auto split: sum.splits)
  have wf1: "wfRegistry reg1" using addUsbDevices_wf[OF "2.prems"(1) a] .
  have "idsOf reg' d k = idsOf reg1 d k \<union> registeredIds rs d k"
    using "2.IH"[OF a wf1 r "2.prems"(3)] .
  then show ?case
    unfolding addUsbDevices_idsOf[OF "2.prems"(1) a] registeredIds_Cons_usb by blast
next
  case (3 driver matchFunc rs reg)
  have wf1: "wfRegistry (addBluetoothDevices driver matchFunc reg)"
    using addBluetoothDevices_wf[OF "3.prems"(1)] .
  have "idsOf reg' d k = idsOf (addBluetoothDevices driver matchFunc reg) d k \<union> registeredIds rs d k"
    using "3.IH"[OF wf1 _ "3.prems"(3)] "3.prems"(2) by simp
  then show ?case
    unfolding addBluetoothDevices_idsOf[OF "3.prems"(1,3)] registeredIds_Cons_bt .
qed

lemma getDriver_dom:
  "getDriver driver reg = (devs, reg1) \<Longrightarrow> fst ` set reg1 = insert driver (fst ` set reg)"
  by (auto simp: getDriver_def map_of_eq_None_iff split: option.splits dest: map_of_SomeD)
    (metis fst_conv image_eqI map_of_SomeD)+

lemma addUsbDevices_dom:
  assumes "addUsbDevices driver key ids reg = Inr reg'"
  shows "fst ` set reg' = insert driver (fst ` set reg)"
proof -
  obtain devs reg1 where g: "getDriver driver reg = (devs, reg1)" by (cases "getDriver driver reg")
  obtain e devs1 where d: "getDefault key devs = (e, devs1)" by (cases "getDefault key devs")
  obtain s where e: "e = Ids s" using assms g d
    by (cases e) (simp_all add: addUsbDevices_def)
  have r: "reg' = AList.update driver (AList.update key (Ids (s \<union> ids)) devs1) reg1"
    using assms g d e by (simp add: addUsbDevices_def)
  show ?thesis unfolding r using getDriver_dom[OF g] by (simp add: AList.dom_update)
qed

lemma addBluetoothDevices_dom:
  "fst ` set (addBluetoothDevices driver f reg) = insert driver (fst ` set reg)"
proof -
  obtain devs reg1 where g: "getDriver driver reg = (devs, reg1)" by (cases "getDriver driver reg")
  show ?thesis unfolding addBluetoothDevices_def g using getDriver_dom[OF g]
    by (simp add: AList.dom_update)
qed

lemma register_dom:
  "register rs reg = Inr reg' \<Longrightarrow> fst ` set reg' = fst ` set reg \<union> registeredDrivers rs"
proof (induction rs reg rule: register.induct)
  case (1 reg)
  then show ?case by simp
next
  case (2 driver type ids rs reg)
  obtain reg1 where a: "addUsbDevices driver type ids reg = Inr reg1"
    and r: "register rs reg1 = Inr reg'"
    using "2.prems" by (auto split: sum.splits)
  show ?case using "2.IH"[OF a r] addUsbDevices_dom[OF a] by auto
next
  case (3 driver matchFunc rs reg)
  then show ?case using addBluetoothDevices_dom[of driver matchFunc reg] by auto
qed

lemma AddUsb_registeredDrivers: "AddUsb d k ids \<in> set rs \<Longrightarrow> d \<in> registeredDrivers rs"
  by (induction rs rule: registeredDrivers.induct) auto

lemma wfRegistry_Nil: "wfRegistry []"
  by (simp add: wfRegistry_def)

lemma registered_idsOf:
  assumes "register rs [] = Inr reg" and "k \<noteq> KEY_BLUETOOTH"
  shows "idsOf reg d k = registeredIds rs d k"
  using register_idsOf[OF wfRegistry_Nil assms, of d] by (simp add: idsOf_def)

subsection \<open>USB matching follows the registered ids\<close>

lemma usb_driver_items:
  assumes "register rs [] = Inr (driverDevices st)"
  shows "m \<in> set (fst (fst (iterate (getConnectedUsbDevicesForDriver driver) env st))) \<longleftrightarrow>
     m \<in> set (fst (enumeratedUsb env st)) \<and> driver \<in> registeredDrivers rs \<and>
     matchId m \<in> registeredIds rs driver (matchType m)"
proof -
  have wf: "wfRegistry (driverDevices st)" using register_wf[OF wfRegistry_Nil assms] .
  have ty: "\<forall>m\<in>set (fst (enumeratedUsb env st)). matchType m \<noteq> KEY_BLUETOOTH"
    unfolding enumeratedUsb_def using usbDevs_type by blast
  have dom: "fst ` set (driverDevices st) = registeredDrivers rs"
    using register_dom[OF assms] by simp
  show ?thesis
  proof (cases "map_of (driverDevices st) driver")
    case None
    then have "driver \<notin> registeredDrivers rs" using dom by (simp add: map_of_eq_None_iff)
    then show ?thesis using None by (simp add: iterate_usb_driver)
  next
    case (Some devs)
    have "(driver, devs) \<in> set (driverDevices st)" using Some by (rule map_of_SomeD)
    then have "driver \<in> fst ` set (driverDevices st)" by force
    then have d: "driver \<in> registeredDrivers rs" using dom by simp
    have wd: "wfDevs devs" using wfDevs_lookup[OF wf Some] .
    have ids: "devIds devs k = idsOf (driverDevices st) driver k" for k
      using Some by (simp add: idsOf_def)
    have "m \<in> set (fst (fst (iterate (getConnectedUsbDevicesForDriver driver) env st))) \<longleftrightarrow>
       m \<in> set (fst (enumeratedUsb env st)) \<and> matchId m \<in> devIds devs (matchType m)"
      using Some by (simp add: iterate_usb_driver matchUsbForDriver_wf[OF wd ty])
    also have "\<dots> \<longleftrightarrow> m \<in> set (fst (enumeratedUsb env st)) \<and>
       matchId m \<in> registeredIds rs driver (matchType m)"
      using ty registered_idsOf[OF assms] by (auto simp: ids)
    finally show ?thesis using d by simp
  qed
qed

lemma usb_all_items:
  assumes "register rs [] = Inr (driverDevices st)"
  shows "(driver, m) \<in> set (fst (fst (iterate getDriversForConnectedUsbDevices env st))) \<longleftrightarrow>
     m \<in> set (fst (enumeratedUsb env st)) \<and> driver \<in> registeredDrivers rs \<and>
     matchId m \<in> registeredIds rs driver (matchType m)"
proof -
  have wf: "wfRegistry (driverDevices st)" using register_wf[OF wfRegistry_Nil assms] .
  have ty: "\<forall>m\<in>set (fst (enumeratedUsb env st)). matchType m \<noteq> KEY_BLUETOOTH"
    unfolding enumeratedUsb_def using usbDevs_type by blast
  have dom: "fst ` set (driverDevices st) = registeredDrivers rs"
    using register_dom[OF assms] by simp
  have "(driver, m) \<in> set (fst (fst (iterate getDriversForConnectedUsbDevices env st))) \<longleftrightarrow>
     m \<in> set (fst (enumeratedUsb env st)) \<and> driver \<in> fst ` set (driverDevices st) \<and>
     matchId m \<in> idsOf (driverDevices st) driver (matchType m)"
    by (simp add: iterate_usb_all matchAllUsb_wf_mem[OF wf ty])
  also have "\<dots> \<longleftrightarrow> m \<in> set (fst (enumeratedUsb env st)) \<and> driver \<in> registeredDrivers rs \<and>
     matchId m \<in> registeredIds rs driver (matchType m)"
    using ty registered_idsOf[OF assms] dom by auto
  finally show ?thesis .
qed

text \<open>
  Claim C1. Let the registry be the one that a sequence of registrations built, one of
  them being \<^verbatim>\<open>addUsbDevices(driver, K, S)\<close>, and let \<open>m\<close> be a device of kind
  \<open>K\<close> among those that the USB functions build from the enumeration. If the id of
  \<open>m\<close> is in \<open>S\<close>, then \<^verbatim>\<open>getConnectedUsbDevicesForDriver(driver)\<close> yields \<open>m\<close> and
  \<^verbatim>\<open>getDriversForConnectedUsbDevices\<close> yields the pair of the driver and \<open>m\<close>. And
  whatever device either function yields for the driver has its id in a set registered
  for the driver under the kind of the device.
\<close>

theorem usb_matching_follows_registered_ids:
  assumes "register rs [] = Inr (driverDevices st)"
    and "AddUsb driver K S \<in> set rs"
    and "m \<in> set (fst (enumeratedUsb env st))"
    and "matchType m = K"
  shows "(matchId m \<in> S \<longrightarrow>
            m \<in> set (fst (fst (iterate (getConnectedUsbDevicesForDriver driver) env st))) \<and>
            (driver, m) \<in> set (fst (fst (iterate getDriversForConnectedUsbDevices env st)))) \<and>
         (\<forall>m'. m' \<in> set (fst (fst (iterate (getConnectedUsbDevicesForDriver driver) env st))) \<or>
               (driver, m') \<in> set (fst (fst (iterate getDriversForConnectedUsbDevices env st))) \<longrightarrow>
               matchId m' \<in> registeredIds rs driver (matchType m'))"
proof -
  have d: "driver \<in> registeredDrivers rs" using assms(2) by (rule AddUsb_registeredDrivers)
  have "matchId m \<in> registeredIds rs driver (matchType m)" if "matchId m \<in> S"
    using that assms(2,4) by (auto simp: registeredIds_def)
  then show ?thesis
    using d assms(3) by (simp add: usb_driver_items[OF assms(1)] usb_all_items[OF assms(1)])
qed

lemma detectionData_registry: "register detectionData [] = Inr exampleRegistry"
  by (simp add: detectionData_def exampleRegistry_def addUsbDevices_def addBluetoothDevices_def
      getDriver_def getDefault_def KEY_HID_def KEY_CUSTOM_def KEY_SERIAL_def KEY_BLUETOOTH_def)

lemma exampleState_simps:
  "driverDevices exampleState = exampleRegistry"
  "btComs exampleState = None"
  "detectUsb exampleState"
  "detectBluetooth exampleState"
  "\<not> stopEvent exampleState"
  "pollTimer exampleState = None"
  "trace exampleState = [RegisterCallback, QueueApc]"
  by (simp_all add: exampleState_def detectorInit_def startBgScan_def)

lemma example_enumeratedUsb: "enumeratedUsb exampleEnv exampleState = ([hidMatch], None)"
  by (simp add: enumeratedUsb_def exampleEnv_def usbDevs_def newDeviceMatch_def getitem_def
      hidPort_def btPort_def hidMatch_def)

theorem usb_matching_follows_registered_ids_witness:
  "hidMatch \<in> set (fst (fst (iterate (getConnectedUsbDevicesForDriver ''brailliantB'') exampleEnv exampleState))) \<and>
   (''brailliantB'', hidMatch) \<in> set (fst (fst (iterate getDriversForConnectedUsbDevices exampleEnv exampleState)))"
  using usb_matching_follows_registered_ids[of detectionData exampleState "''brailliantB''" KEY_HID
      "{Str ''VID_1C71&PID_C006''}" hidMatch exampleEnv]
  by (simp add: detectionData_registry exampleState_simps example_enumeratedUsb)
    (simp add: detectionData_def hidMatch_def)

subsection \<open>A custom device without id\<close>

lemma newDeviceMatch_error: "newDeviceMatch t a b port = Inl e \<Longrightarrow> e = KeyError"
  by (auto simp: newDeviceMatch_def getitem_def split: option.splits sum.splits)

lemma newDeviceMatch_missing_id: "port a = None \<Longrightarrow> newDeviceMatch t a b port = Inl KeyError"
  by (simp add: newDeviceMatch_def getitem_def)

lemma genexp_snd_KeyError:
  "snd (genexp c (newDeviceMatch t a b) ps) = Some e \<Longrightarrow> e = KeyError"
proof (induction ps)
  case Nil
  then show ?case by simp
next
  case (Cons p ps)
  then show ?case
    by (auto split: if_splits sum.splits prod.splits dest: newDeviceMatch_error)
qed

lemma genexp_unfiltered_missing_id:
  assumes "port \<in> set ps" and "port a = None"
  shows "snd (genexp (\<lambda>port. True) (newDeviceMatch t a b) ps) = Some KeyError"
  using assms
proof (induction ps)
  case Nil
  then show ?case by simp
next
  case (Cons p ps)
  show ?case
  proof (cases "newDeviceMatch t a b p")
    case (Inl e)
    then show ?thesis using newDeviceMatch_error[OF Inl] by simp
  next
    case (Inr x)
    then have "p \<noteq> port" using Cons.prems(2) newDeviceMatch_missing_id[of port a t b] by auto
    then have "snd (genexp (\<lambda>port. True) (newDeviceMatch t a b) ps) = Some KeyError"
      using Cons by simp
    then show ?thesis using Inr
      by (cases "genexp (\<lambda>port. True) (newDeviceMatch t a b) ps") simp
  qed
qed

lemma genexp_skip:
  "\<not> c p \<Longrightarrow> genexp c f (ps @ p # qs) = genexp c f (ps @ qs)"
  by (induction ps) (simp_all split: sum.splits prod.splits)

lemma chain_snd_left: "snd g = Some e \<Longrightarrow> snd (chain g h) = Some e"
  by (cases g) simp

lemma usbDevs_missing_id:
  assumes "port \<in> set usb" and "port ''usbID'' = None"
  shows "snd (usbDevs usb hid com) = Some KeyError"
  unfolding usbDevs_def
  by (rule chain_snd_left) (rule genexp_unfiltered_missing_id[OF assms])

lemma usbDevs_skip_hid:
  "port ''usbID'' = None \<Longrightarrow> usbDevs usb (hid1 @ port # hid2) com = usbDevs usb (hid1 @ hid2) com"
  by (simp add: usbDevs_def genexp_skip domIff)

lemma usbDevs_skip_com:
  "port ''usbID'' = None \<Longrightarrow> usbDevs usb hid (com1 @ port # com2) = usbDevs usb hid (com1 @ com2)"
  by (simp add: usbDevs_def genexp_skip domIff)

text \<open>
  Claim C9. The custom devices are built from every record of \<^verbatim>\<open>listUsbDevices\<close>,
  without a test for the key \<^verbatim>\<open>usbID\<close>: when one of the records has no such key, both
  USB functions end with a \<^verbatim>\<open>KeyError\<close>, whatever the registry built by the
  registration functions and whatever the driver asked for. A record of
  \<^verbatim>\<open>listHidDevices\<close> or \<^verbatim>\<open>listComPorts\<close> without the key is skipped instead: the
  devices built are those built without it.
\<close>

theorem custom_device_without_usbID_raises:
  assumes "register rs [] = Inr (driverDevices st)"
    and "port \<in> set (usbDevicesAt env (length (trace st)))"
    and "port ''usbID'' = None"
  shows "snd (fst (iterate getDriversForConnectedUsbDevices env st)) = Some KeyError \<and>
         snd (fst (iterate (getConnectedUsbDevicesForDriver driver) env st)) = Some KeyError \<and>
         usbDevs usb (hid1 @ port # hid2) com = usbDevs usb (hid1 @ hid2) com \<and>
         usbDevs usb hid (com1 @ port # com2) = usbDevs usb hid (com1 @ com2)"
proof -
  have wf: "wfRegistry (driverDevices st)" using register_wf[OF wfRegistry_Nil assms(1)] .
  have ty: "\<forall>m\<in>set (fst (enumeratedUsb env st)). matchType m \<noteq> KEY_BLUETOOTH"
    unfolding enumeratedUsb_def using usbDevs_type by blast
  have err: "snd (enumeratedUsb env st) = Some KeyError"
    unfolding enumeratedUsb_def by (rule usbDevs_missing_id[OF assms(2,3)])
  have a: "snd (fst (iterate getDriversForConnectedUsbDevices env st)) = Some KeyError"
    using err by (simp add: iterate_usb_all matchAllUsb_wf_snd[OF wf ty])
  have b: "snd (fst (iterate (getConnectedUsbDevicesForDriver driver) env st)) = Some KeyError"
  proof (cases "map_of (driverDevices st) driver")
    case None
    then show ?thesis by (simp add: iterate_usb_driver)
  next
    case (Some devs)
    have wd: "wfDevs devs" using wfDevs_lookup[OF wf Some] .
    show ?thesis using Some err by (simp add: iterate_usb_driver matchUsbForDriver_wf[OF wd ty])
  qed
  have c: "usbDevs usb (hid1 @ port # hid2) com = usbDevs usb (hid1 @ hid2) com"
    using assms(3) by (rule usbDevs_skip_hid)
  have d: "usbDevs usb hid (com1 @ port # com2) = usbDevs usb hid (com1 @ com2)"
    using assms(3) by (rule usbDevs_skip_com)
  show ?thesis using a b c d by simp
qed

theorem custom_device_without_usbID_raises_witness:
  "snd (fst (iterate getDriversForConnectedUsbDevices badEnv exampleState)) = Some KeyError \<and>
   snd (fst (iterate (getConnectedUsbDevicesForDriver ''superBrl'') badEnv exampleState)) = Some KeyError \<and>
   usbDevs [] ([] @ badUsbPort # [hidPort]) [] = usbDevs [] ([] @ [hidPort]) [] \<and>
   usbDevs [] [] ([] @ badUsbPort # []) = usbDevs [] [] ([] @ [])"
  using custom_device_without_usbID_raises[of detectionData exampleState badUsbPort badEnv
      "''superBrl''" "[]" "[]" "[hidPort]" "[]" "[]" "[]" "[]"]
  by (simp add: detectionData_registry exampleState_simps badEnv_def exampleEnv_def badUsbPort_def)

subsection \<open>Bluetooth matching\<close>

lemma getDefault_fst:
  "fst (getDefault key devs) = (case map_of devs key of Some e \<Rightarrow> e | None \<Rightarrow> Ids {})"
  by (simp add: getDefault_def split: option.splits)

lemma getDefault_snd:
  "snd (getDefault key devs) =
     (case map_of devs key of Some e \<Rightarrow> devs | None \<Rightarrow> devs @ [(key, Ids {})])"
  by (simp add: getDefault_def split: option.splits)

lemma btAccepts_getDefault:
  "btAccepts (snd (getDefault KEY_BLUETOOTH devs)) m = btAccepts devs m"
  by (simp add: getDefault_snd btAccepts_def map_add_def split: option.splits)

lemma getDefault_idem:
  "snd (getDefault key (snd (getDefault key devs))) = snd (getDefault key devs)"
  by (simp add: getDefault_snd map_add_def split: option.splits)

lemma touchBluetooth_idem: "touchBluetooth (touchBluetooth reg) = touchBluetooth reg"
  by (induction reg) (auto simp: touchBluetooth_def getDefault_idem)

lemma btMatchDrivers_eq:
  "btMatchDrivers m reg =
     (map (\<lambda>(d, devs). (d, m)) (filter (\<lambda>(d, devs). btAccepts devs m) reg), touchBluetooth reg)"
proof (induction reg)
  case Nil
  then show ?case by (simp add: touchBluetooth_def)
next
  case (Cons a reg)
  obtain d devs where a: "a = (d, devs)" by (cases a)
  obtain e devs1 where g: "getDefault KEY_BLUETOOTH devs = (e, devs1)"
    by (cases "getDefault KEY_BLUETOOTH devs")
  have e: "e = (case map_of devs KEY_BLUETOOTH of Some e \<Rightarrow> e | None \<Rightarrow> Ids {})"
    using getDefault_fst[of KEY_BLUETOOTH devs] g by simp
  have acc: "btAccepts devs m = (case e of Ids s \<Rightarrow> False | MatchFunc f \<Rightarrow> f m)"
    unfolding e btAccepts_def by (simp split: option.splits entry.splits)
  show ?case using Cons a g acc
    by (simp add: touchBluetooth_def split: entry.splits)
qed

lemma filter_touchBluetooth:
  "map (\<lambda>(d, devs). (d, m)) (filter (\<lambda>(d, devs). btAccepts devs m) (touchBluetooth reg)) =
   map (\<lambda>(d, devs). (d, m)) (filter (\<lambda>(d, devs). btAccepts devs m) reg)"
  by (induction reg) (auto simp: touchBluetooth_def btAccepts_getDefault)

lemma matchAllBluetooth_eq:
  "matchAllBluetooth ms reg =
     (concat (map (\<lambda>m. map (\<lambda>(d, devs). (d, m)) (filter (\<lambda>(d, devs). btAccepts devs m) reg)) ms),
      if ms = [] then reg else touchBluetooth reg)"
proof (induction ms arbitrary: reg)
  case Nil
  then show ?case by simp
next
  case (Cons m ms)
  have "matchAllBluetooth ms (touchBluetooth reg) =
     (concat (map (\<lambda>m. map (\<lambda>(d, devs). (d, m)) (filter (\<lambda>(d, devs). btAccepts devs m) reg)) ms),
      touchBluetooth reg)"
    unfolding Cons.IH[of "touchBluetooth reg"] by (simp add: filter_touchBluetooth touchBluetooth_idem)
  then show ?case by (simp add: btMatchDrivers_eq)
qed

lemma onlyDefaultsInserted_refl: "onlyDefaultsInserted reg reg"
  by (simp add: onlyDefaultsInserted_def list_all2_same split: prod.splits)

lemma onlyDefaultsInserted_touch: "onlyDefaultsInserted reg (touchBluetooth reg)"
  by (induction reg)
    (auto simp: onlyDefaultsInserted_def touchBluetooth_def getDefault_snd split: option.splits)

lemma onlyDefaultsInserted_update:
  assumes "map_of reg driver = Some devs"
  shows "onlyDefaultsInserted reg (AList.update driver (snd (getDefault KEY_BLUETOOTH devs)) reg)"
  using assms
proof (induction reg)
  case Nil
  then show ?case by simp
next
  case (Cons a reg)
  obtain d ds where a: "a = (d, ds)" by (cases a)
  show ?case
  proof (cases "d = driver")
    case True
    then have "ds = devs" using Cons.prems a by simp
    then show ?thesis using True a onlyDefaultsInserted_refl[of reg]
      by (auto simp: onlyDefaultsInserted_def getDefault_snd split: option.splits)
  next
    case False
    then have "onlyDefaultsInserted reg (AList.update driver (snd (getDefault KEY_BLUETOOTH devs)) reg)"
      using Cons a by simp
    then show ?thesis using False a by (simp add: onlyDefaultsInserted_def)
  qed
qed

lemma matchFuncOf_btAccepts:
  "map_of reg d = Some devs \<Longrightarrow> btAccepts devs m \<longleftrightarrow> (\<exists>f. matchFuncOf reg d = Some f \<and> f m)"
  by (auto simp: matchFuncOf_def btAccepts_def split: option.splits entry.splits)

lemma matchAllBluetooth_mem:
  assumes "distinct (map fst reg)"
  shows "(d, m) \<in> set (fst (matchAllBluetooth ms reg)) \<longleftrightarrow>
     m \<in> set ms \<and> (\<exists>f. matchFuncOf reg d = Some f \<and> f m)"
proof -
  have "(d, m) \<in> set (fst (matchAllBluetooth ms reg)) \<longleftrightarrow>
      m \<in> set ms \<and> (\<exists>devs. (d, devs) \<in> set reg \<and> btAccepts devs m)"
    unfolding matchAllBluetooth_eq by auto
  also have "(\<exists>devs. (d, devs) \<in> set reg \<and> btAccepts devs m) \<longleftrightarrow>
      (\<exists>f. matchFuncOf reg d = Some f \<and> f m)"
  proof (cases "map_of reg d")
    case None
    then have "d \<notin> fst ` set reg" by (simp add: map_of_eq_None_iff)
    then have "\<And>devs. (d, devs) \<notin> set reg" by force
    then show ?thesis using None by (simp add: matchFuncOf_def)
  next
    case (Some devs)
    have "\<And>devs'. (d, devs') \<in> set reg \<longleftrightarrow> devs' = devs"
      using assms Some by (metis map_of_SomeD map_of_is_SomeI option.inject)
    then show ?thesis using matchFuncOf_btAccepts[OF Some, of m] by simp
  qed
  finally show ?thesis .
qed

lemma iterate_bt_all:
  "iterate getDriversForPossibleBluetoothDevices env st =
     (case snd (enumeratedBluetooth env st) of
        Some e \<Rightarrow> (([], Some e), st\<lparr>trace := trace st @ [ListComPorts]\<rparr>)
      | None \<Rightarrow>
         ((fst (matchAllBluetooth (fst (enumeratedBluetooth env st)) (driverDevices st)), None),
          st\<lparr>trace := trace st @ [ListComPorts],
             driverDevices := snd (matchAllBluetooth (fst (enumeratedBluetooth env st)) (driverDevices st))\<rparr>))"
  by (simp add: getDriversForPossibleBluetoothDevices_def listComPorts_def enumeratedBluetooth_def
      split: prod.splits option.splits)

lemma forYield_filter:
  "forYield xs e (\<lambda>x. if P x then ([x], None) else ([], None)) = (filter P xs, e)"
  by (induction xs) auto

lemma iterate_bt_driver:
  "iterate (getPossibleBluetoothDevicesForDriver driver) env st =
     (case map_of (driverDevices st) driver of
        None \<Rightarrow> (([], Some KeyError), st)
      | Some devs \<Rightarrow>
         (case fst (getDefault KEY_BLUETOOTH devs) of
            Ids s \<Rightarrow>
              (([], None),
               st\<lparr>driverDevices :=
                    AList.update driver (snd (getDefault KEY_BLUETOOTH devs)) (driverDevices st)\<rparr>)
          | MatchFunc f \<Rightarrow>
              ((filter f (fst (enumeratedBluetooth env st)), snd (enumeratedBluetooth env st)),
               st\<lparr>driverDevices :=
                    AList.update driver (snd (getDefault KEY_BLUETOOTH devs)) (driverDevices st),
                  trace := trace st @ [ListComPorts]\<rparr>)))"
  by (simp add: getPossibleBluetoothDevicesForDriver_def listComPorts_def enumeratedBluetooth_def
      forYield_filter Let_def split: prod.splits option.splits entry.splits)

lemma addUsbDevices_matchFuncOf:
  assumes "wfRegistry reg" and "addUsbDevices driver key ids reg = Inr reg'"
  shows "matchFuncOf reg' d = matchFuncOf reg d"
proof -
  obtain devs reg1 where g: "getDriver driver reg = (devs, reg1)" by (cases "getDriver driver reg")
  obtain e devs1 where df: "getDefault key devs = (e, devs1)" by (cases "getDefault key devs")
  obtain s where e: "e = Ids s" using assms(2) g df
    by (cases e) (simp_all add: addUsbDevices_def)
  have r: "reg' = AList.update driver (AList.update key (Ids (s \<union> ids)) devs1) reg1"
    using assms(2) g df e by (simp add: addUsbDevices_def)
  note gw = getDriver_wf[OF assms(1) g]
  note dw = getDefault_wf[OF gw(2) df]
  show ?thesis
  proof (cases "d = driver")
    case False
    then show ?thesis unfolding r using gw(4) by (simp add: matchFuncOf_def AList.update_conv')
  next
    case True
    have old: "matchFuncOf reg driver =
        (case map_of devs KEY_BLUETOOTH of Some (MatchFunc f) \<Rightarrow> Some f | _ \<Rightarrow> None)"
    proof (cases "map_of reg driver")
      case None
      then show ?thesis using gw(5) by (simp add: matchFuncOf_def)
    next
      case (Some x)
      then show ?thesis using gw(6) by (simp add: matchFuncOf_def)
    qed
    show ?thesis
    proof (cases "key = KEY_BLUETOOTH")
      case True
      have "map_of devs KEY_BLUETOOTH = None \<or> map_of devs KEY_BLUETOOTH = Some (Ids s)"
        using dw(5) e True by (cases "map_of devs KEY_BLUETOOTH") auto
      then show ?thesis unfolding r using \<open>d = driver\<close> old True
        by (auto simp: matchFuncOf_def AList.update_conv')
    next
      case False
      then have "map_of devs1 KEY_BLUETOOTH = map_of devs KEY_BLUETOOTH" using dw(3) by simp
      then show ?thesis unfolding r using \<open>d = driver\<close> old False
        by (simp add: matchFuncOf_def AList.update_conv')
    qed
  qed
qed

lemma addBluetoothDevices_matchFuncOf:
  assumes "wfRegistry reg"
  shows "matchFuncOf (addBluetoothDevices driver f reg) d =
     (if d = driver then Some f else matchFuncOf reg d)"
proof -
  obtain devs reg1 where g: "getDriver driver reg = (devs, reg1)" by (cases "getDriver driver reg")
  note gw = getDriver_wf[OF assms(1) g]
  show ?thesis unfolding addBluetoothDevices_def g using gw(4)
    by (simp add: matchFuncOf_def AList.update_conv')
qed

lemma register_matchFuncOf:
  "wfRegistry reg \<Longrightarrow> register rs reg = Inr reg' \<Longrightarrow>
   matchFuncOf reg' d = (case lastMatchFunc rs d of Some f \<Rightarrow> Some f | None \<Rightarrow> matchFuncOf reg d)"
proof (induction rs reg rule: register.induct)
  case (1 reg)
  then show ?case by simp
next
  case (2 driver type ids rs reg)
  obtain reg1 where a: "addUsbDevices driver type ids reg = Inr reg1"
    and r: "register rs reg1 = Inr reg'"
    using "2.prems"(2) by (auto split: sum.splits)
  have wf1: "wfRegistry reg1" using addUsbDevices_wf[OF "2.prems"(1) a] .
  show ?case
    using "2.IH"[OF a wf1 r] addUsbDevices_matchFuncOf[OF "2.prems"(1) a, of d]
    by (simp split: option.splits)
next
  case (3 driver matchFunc rs reg)
  have wf1: "wfRegistry (addBluetoothDevices driver matchFunc reg)"
    using addBluetoothDevices_wf[OF "3.prems"(1)] .
  show ?case
    using "3.IH"[OF wf1] "3.prems"(2) addBluetoothDevices_matchFuncOf[OF "3.prems"(1), of driver matchFunc d]
    by (auto split: option.splits)
qed

lemma registered_matchFuncOf:
  assumes "register rs [] = Inr reg"
  shows "matchFuncOf reg d = lastMatchFunc rs d"
  using register_matchFuncOf[OF wfRegistry_Nil assms, of d]
  by (simp add: matchFuncOf_def split: option.splits)

lemma bt_all_items:
  assumes "register rs [] = Inr (driverDevices st)"
  shows "(d, m) \<in> set (fst (fst (iterate getDriversForPossibleBluetoothDevices env st))) \<longleftrightarrow>
     snd (enumeratedBluetooth env st) = None \<and> m \<in> set (fst (enumeratedBluetooth env st)) \<and>
     (\<exists>f. lastMatchFunc rs d = Some f \<and> f m)"
proof -
  have wf: "wfRegistry (driverDevices st)" using register_wf[OF wfRegistry_Nil assms] .
  then have dist: "distinct (map fst (driverDevices st))" by (simp add: wfRegistry_def)
  show ?thesis
    by (cases "snd (enumeratedBluetooth env st)")
      (simp_all add: iterate_bt_all matchAllBluetooth_mem[OF dist] registered_matchFuncOf[OF assms])
qed

lemma bt_driver_items:
  assumes "register rs [] = Inr (driverDevices st)"
  shows "m \<in> set (fst (fst (iterate (getPossibleBluetoothDevicesForDriver d) env st))) \<longleftrightarrow>
     m \<in> set (fst (enumeratedBluetooth env st)) \<and> (\<exists>f. lastMatchFunc rs d = Some f \<and> f m)"
proof (cases "map_of (driverDevices st) d")
  case None
  then have "matchFuncOf (driverDevices st) d = None" by (simp add: matchFuncOf_def)
  then have "lastMatchFunc rs d = None" using registered_matchFuncOf[OF assms, of d] by simp
  then show ?thesis using None by (simp add: iterate_bt_driver)
next
  case (Some devs)
  have mf: "lastMatchFunc rs d =
      (case map_of devs KEY_BLUETOOTH of Some (MatchFunc f) \<Rightarrow> Some f | _ \<Rightarrow> None)"
    using registered_matchFuncOf[OF assms, of d] Some by (simp add: matchFuncOf_def)
  show ?thesis
  proof (cases "fst (getDefault KEY_BLUETOOTH devs)")
    case (Ids s)
    then have "lastMatchFunc rs d = None" unfolding mf getDefault_fst
      by (simp split: option.splits entry.splits)
    then show ?thesis using Some Ids by (simp add: iterate_bt_driver)
  next
    case (MatchFunc f)
    then have "lastMatchFunc rs d = Some f" unfolding mf getDefault_fst
      by (simp split: option.splits entry.splits)
    then show ?thesis using Some MatchFunc by (simp add: iterate_bt_driver)
  qed
qed

text \<open>
  Claim C5. Let the registry be the one that a sequence of registrations built. When the
  list of Bluetooth devices is built without an exception,
  \<^verbatim>\<open>getDriversForPossibleBluetoothDevices\<close> yields the pair of a driver and a device if
  and only if the device is in the list, a match function is registered for the driver
  (the last one registered counts) and the function accepts the device.
  \<^verbatim>\<open>getPossibleBluetoothDevicesForDriver\<close> yields a device under the same condition,
  among the devices built before an exception. A driver without a registered function
  gets no device from either.
\<close>

theorem bluetooth_matching_follows_predicate:
  assumes "register rs [] = Inr (driverDevices st)"
  shows "(snd (enumeratedBluetooth env st) = None \<longrightarrow>
            ((d, m) \<in> set (fst (fst (iterate getDriversForPossibleBluetoothDevices env st))) \<longleftrightarrow>
             m \<in> set (fst (enumeratedBluetooth env st)) \<and> (\<exists>f. lastMatchFunc rs d = Some f \<and> f m))) \<and>
         (m \<in> set (fst (fst (iterate (getPossibleBluetoothDevicesForDriver d) env st))) \<longleftrightarrow>
             m \<in> set (fst (enumeratedBluetooth env st)) \<and> (\<exists>f. lastMatchFunc rs d = Some f \<and> f m)) \<and>
         (lastMatchFunc rs d = None \<longrightarrow>
            (d, m) \<notin> set (fst (fst (iterate getDriversForPossibleBluetoothDevices env st))) \<and>
            m \<notin> set (fst (fst (iterate (getPossibleBluetoothDevicesForDriver d) env st))))"
  by (simp add: bt_all_items[OF assms] bt_driver_items[OF assms])

lemma example_enumeratedBluetooth: "enumeratedBluetooth exampleEnv st = ([btMatch], None)"
  by (simp add: enumeratedBluetooth_def exampleEnv_def btDevs_def newDeviceMatch_def getitem_def
      btPort_def btMatch_def)

theorem bluetooth_matching_follows_predicate_witness:
  "(''brailliantB'', btMatch) \<in> set (fst (fst (iterate getDriversForPossibleBluetoothDevices exampleEnv exampleState))) \<and>
   btMatch \<in> set (fst (fst (iterate (getPossibleBluetoothDevicesForDriver ''brailliantB'') exampleEnv exampleState))) \<and>
   (''superBrl'', btMatch) \<notin> set (fst (fst (iterate getDriversForPossibleBluetoothDevices exampleEnv exampleState))) \<and>
   btMatch \<notin> set (fst (fst (iterate (getPossibleBluetoothDevicesForDriver ''superBrl'') exampleEnv exampleState)))"
  using bluetooth_matching_follows_predicate[of detectionData exampleState exampleEnv "''brailliantB''" btMatch]
    bluetooth_matching_follows_predicate[of detectionData exampleState exampleEnv "''superBrl''" btMatch]
  by (simp add: detectionData_registry exampleState_simps example_enumeratedBluetooth)
    (simp add: detectionData_def btMatch_def)

subsection \<open>The loops of a pass\<close>

lemma isSet_state: "snd (isSet env ev st) = st\<lparr>trace := trace st @ [IsSet (fst (isSet env ev st))]\<rparr>"
  by (simp add: isSet_def Let_def)

lemma setDisplayByName_state:
  "snd (setDisplayByName env d m st) =
     st\<lparr>trace := trace st @ [SetDisplayByName d m (fst (setDisplayByName env d m st))]\<rparr>"
  by (simp add: setDisplayByName_def Let_def)

lemma attempts_append: "attempts (xs @ ys) = attempts xs @ attempts ys"
  by (induction xs rule: attempts.induct) simp_all

lemma usbLoop_trace:
  "usbLoop env ev cands st = (r, st') \<Longrightarrow>
   \<exists>evs. st' = st\<lparr>trace := trace st @ evs\<rparr> \<and>
      (r = None \<longrightarrow> list_all failedAttempt evs \<and> attempts evs = cands) \<and>
      (r = Some Cancelled \<longrightarrow> (\<exists>pre. evs = pre @ [IsSet True] \<and> list_all failedAttempt pre)) \<and>
      (r = Some Activated \<longrightarrow>
         (\<exists>pre d m. evs = pre @ [SetDisplayByName d m True] \<and> list_all failedAttempt pre \<and>
            (d, m) \<in> set cands)) \<and>
      (r = None \<or> r = Some Cancelled \<or> r = Some Activated)"
proof (induction cands arbitrary: st)
  case Nil
  then have "st' = st\<lparr>trace := trace st @ []\<rparr>" and "r = None" by simp_all
  then show ?case by (intro exI[of _ "[]"]) simp
next
  case (Cons c cands)
  obtain d m where c: "c = (d, m)" by (cases c)
  let ?b = "fst (isSet env ev st)"
  let ?st1 = "st\<lparr>trace := trace st @ [IsSet ?b]\<rparr>"
  have i: "isSet env ev st = (?b, ?st1)" using isSet_state[of env ev st] by (cases "isSet env ev st") simp
  show ?case
  proof (cases ?b)
    case True
    then have "r = Some Cancelled" and "st' = ?st1" using Cons.prems c i by simp_all
    then show ?thesis using True by (intro exI[of _ "[IsSet True]"]) simp
  next
    case False
    let ?ok = "fst (setDisplayByName env d m ?st1)"
    let ?st2 = "?st1\<lparr>trace := trace ?st1 @ [SetDisplayByName d m ?ok]\<rparr>"
    have s: "setDisplayByName env d m ?st1 = (?ok, ?st2)"
      using setDisplayByName_state[of env d m ?st1] by (cases "setDisplayByName env d m ?st1") simp
    show ?thesis
    proof (cases ?ok)
      case True
      then have "r = Some Activated" and "st' = ?st2" using Cons.prems c i s False by simp_all
      then show ?thesis using True False c
        by (intro exI[of _ "[IsSet False, SetDisplayByName d m True]"])
          (auto intro: exI[of _ "[IsSet False]"])
    next
      case ok: False
      have "usbLoop env ev cands ?st2 = (r, st')" using Cons.prems c i s False ok by simp
      from Cons.IH[OF this] obtain evs where evs: "st' = ?st2\<lparr>trace := trace ?st2 @ evs\<rparr>"
        "r = None \<longrightarrow> list_all failedAttempt evs \<and> attempts evs = cands"
        "r = Some Cancelled \<longrightarrow> (\<exists>pre. evs = pre @ [IsSet True] \<and> list_all failedAttempt pre)"
        "r = Some Activated \<longrightarrow>
         (\<exists>pre d m. evs = pre @ [SetDisplayByName d m True] \<and> list_all failedAttempt pre \<and>
            (d, m) \<in> set cands)"
        "r = None \<or> r = Some Cancelled \<or> r = Some Activated"
        by blast
      let ?evs = "[IsSet False, SetDisplayByName d m False] @ evs"
      have 1: "st' = st\<lparr>trace := trace st @ ?evs\<rparr>" using evs(1) False ok by simp
      have 2: "r = None \<longrightarrow> list_all failedAttempt ?evs \<and> attempts ?evs = c # cands"
        using evs(2) c by simp
      have 3: "r = Some Cancelled \<longrightarrow> (\<exists>pre. ?evs = pre @ [IsSet True] \<and> list_all failedAttempt pre)"
      proof
        assume "r = Some Cancelled"
        then obtain pre where "evs = pre @ [IsSet True]" "list_all failedAttempt pre" using evs(3) by blast
        then show "\<exists>pre. ?evs = pre @ [IsSet True] \<and> list_all failedAttempt pre"
          by (intro exI[of _ "[IsSet False, SetDisplayByName d m False] @ pre"]) simp
      qed
      have 4: "r = Some Activated \<longrightarrow>
         (\<exists>pre d' m'. ?evs = pre @ [SetDisplayByName d' m' True] \<and> list_all failedAttempt pre \<and>
            (d', m') \<in> set (c # cands))"
      proof
        assume "r = Some Activated"
        then obtain pre d' m' where "evs = pre @ [SetDisplayByName d' m' True]"
          "list_all failedAttempt pre" "(d', m') \<in> set cands" using evs(4) by blast
        then show "\<exists>pre d' m'. ?evs = pre @ [SetDisplayByName d' m' True] \<and> list_all failedAttempt pre \<and>
            (d', m') \<in> set (c # cands)"
          by (intro exI[of _ "[IsSet False, SetDisplayByName d m False] @ pre"] exI[of _ d'] exI[of _ m']) simp
      qed
      show ?thesis using 1 2 3 4 evs(5) by blast
    qed
  qed
qed

lemma btLoop_trace:
  "btLoop env ev fresh cands cache st = ((x, cache'), st') \<Longrightarrow>
   \<exists>evs. st' = st\<lparr>trace := trace st @ evs\<rparr> \<and>
      cache' = (if fresh then cache @ attempts evs else cache) \<and>
      (\<exists>rest. cands = attempts evs @ rest) \<and>
      (x = Finished \<longrightarrow> list_all failedAttempt evs \<and> attempts evs = cands) \<and>
      (x = Cancelled \<longrightarrow> (\<exists>pre. evs = pre @ [IsSet True] \<and> list_all failedAttempt pre)) \<and>
      (x = Activated \<longrightarrow>
         (\<exists>pre d m. evs = pre @ [SetDisplayByName d m True] \<and> list_all failedAttempt pre)) \<and>
      (x = Finished \<or> x = Cancelled \<or> x = Activated)"
proof (induction cands arbitrary: st cache)
  case Nil
  then have "st' = st\<lparr>trace := trace st @ []\<rparr>" and "x = Finished" and "cache' = cache" by simp_all
  then show ?case by (intro exI[of _ "[]"]) simp
next
  case (Cons c cands)
  obtain d m where c: "c = (d, m)" by (cases c)
  let ?b = "fst (isSet env ev st)"
  let ?st1 = "st\<lparr>trace := trace st @ [IsSet ?b]\<rparr>"
  have i: "isSet env ev st = (?b, ?st1)" using isSet_state[of env ev st] by (cases "isSet env ev st") simp
  show ?case
  proof (cases ?b)
    case True
    then have "x = Cancelled" and "st' = ?st1" and "cache' = cache" using Cons.prems c i by simp_all
    then show ?thesis using True by (intro exI[of _ "[IsSet True]"]) simp
  next
    case False
    let ?ok = "fst (setDisplayByName env d m ?st1)"
    let ?st2 = "?st1\<lparr>trace := trace ?st1 @ [SetDisplayByName d m ?ok]\<rparr>"
    let ?cache1 = "if fresh then cache @ [(d, m)] else cache"
    have s: "setDisplayByName env d m ?st1 = (?ok, ?st2)"
      using setDisplayByName_state[of env d m ?st1] by (cases "setDisplayByName env d m ?st1") simp
    show ?thesis
    proof (cases ?ok)
      case True
      then have "x = Activated" and "st' = ?st2" and "cache' = ?cache1"
        using Cons.prems c i s False by (simp_all add: Let_def)
      then show ?thesis using True False c
        by (intro exI[of _ "[IsSet False, SetDisplayByName d m True]"])
          (auto intro: exI[of _ "[IsSet False]"])
    next
      case ok: False
      have "btLoop env ev fresh cands ?cache1 ?st2 = ((x, cache'), st')"
        using Cons.prems c i s False ok by (simp add: Let_def)
      from Cons.IH[OF this] obtain evs where evs: "st' = ?st2\<lparr>trace := trace ?st2 @ evs\<rparr>"
        "cache' = (if fresh then ?cache1 @ attempts evs else ?cache1)"
        "\<exists>rest. cands = attempts evs @ rest"
        "x = Finished \<longrightarrow> list_all failedAttempt evs \<and> attempts evs = cands"
        "x = Cancelled \<longrightarrow> (\<exists>pre. evs = pre @ [IsSet True] \<and> list_all failedAttempt pre)"
        "x = Activated \<longrightarrow>
         (\<exists>pre d m. evs = pre @ [SetDisplayByName d m True] \<and> list_all failedAttempt pre)"
        "x = Finished \<or> x = Cancelled \<or> x = Activated"
        by blast
      let ?evs = "[IsSet False, SetDisplayByName d m False] @ evs"
      have 1: "st' = st\<lparr>trace := trace st @ ?evs\<rparr>" using evs(1) False ok by simp
      have 2: "cache' = (if fresh then cache @ attempts ?evs else cache)" using evs(2) by simp
      have 3: "\<exists>rest. c # cands = attempts ?evs @ rest" using evs(3) c by simp
      have 4: "x = Finished \<longrightarrow> list_all failedAttempt ?evs \<and> attempts ?evs = c # cands"
        using evs(4) c by simp
      have 5: "x = Cancelled \<longrightarrow> (\<exists>pre. ?evs = pre @ [IsSet True] \<and> list_all failedAttempt pre)"
      proof
        assume "x = Cancelled"
        then obtain pre where "evs = pre @ [IsSet True]" "list_all failedAttempt pre" using evs(5) by blast
        then show "\<exists>pre. ?evs = pre @ [IsSet True] \<and> list_all failedAttempt pre"
          by (intro exI[of _ "[IsSet False, SetDisplayByName d m False] @ pre"]) simp
      qed
      have 6: "x = Activated \<longrightarrow>
         (\<exists>pre d' m'. ?evs = pre @ [SetDisplayByName d' m' True] \<and> list_all failedAttempt pre)"
      proof
        assume "x = Activated"
        then obtain pre d' m' where "evs = pre @ [SetDisplayByName d' m' True]"
          "list_all failedAttempt pre" using evs(6) by blast
        then show "\<exists>pre d' m'. ?evs = pre @ [SetDisplayByName d' m' True] \<and> list_all failedAttempt pre"
          by (intro exI[of _ "[IsSet False, SetDisplayByName d m False] @ pre"] exI[of _ d'] exI[of _ m']) simp
      qed
      show ?thesis using 1 2 3 4 5 6 evs(7) by blast
    qed
  qed
qed

lemma failedAttempt_not_enumeration: "failedAttempt e \<Longrightarrow> \<not> enumeration e"
  by (cases e) simp_all

lemma failedAttempts_no_enumeration:
  "list_all failedAttempt evs \<Longrightarrow> list_all (\<lambda>e. \<not> enumeration e) evs"
  by (induction evs) (auto dest: failedAttempt_not_enumeration)

lemma failedAttempts_not_timer:
  "list_all failedAttempt evs \<Longrightarrow> SetWaitableTimer n \<notin> set evs"
  by (induction evs) auto

subsection \<open>A successful USB activation\<close>

lemma newEvents_append: "newEvents st (st\<lparr>trace := trace st @ evs\<rparr>) = evs"
  by (simp add: newEvents_def)

lemma usbStage_eq:
  "usbStage env ev st =
     (if fst (isSet env ev st) then (Some Cancelled, st\<lparr>trace := trace st @ [IsSet True]\<rparr>)
      else
        (case usbLoop env ev
                (fst (matchAllUsb (driverDevices st)
                        (enumeratedUsb env (st\<lparr>trace := trace st @ [IsSet False]\<rparr>))))
                (st\<lparr>trace := trace st @ [IsSet False, ListUsbDevices, ListHidDevices, ListComPorts]\<rparr>) of
           (Some x, st3) \<Rightarrow> (Some x, st3)
         | (None, st3) \<Rightarrow>
            (case snd (matchAllUsb (driverDevices st)
                        (enumeratedUsb env (st\<lparr>trace := trace st @ [IsSet False]\<rparr>))) of
               Some e \<Rightarrow> (Some (Raised e), st3)
             | None \<Rightarrow> (None, st3))))"
proof -
  obtain cands err where g:
    "matchAllUsb (driverDevices st) (enumeratedUsb env (st\<lparr>trace := trace st @ [IsSet False]\<rparr>)) =
       (cands, err)"
    by fastforce
  show ?thesis
    by (auto simp: usbStage_def iterate_usb_all isSet_def Let_def g
        split: prod.splits bool.splits option.splits)
qed

lemma usbStage_activated:
  assumes "usbStage env ev st = (Some Activated, st1)"
  shows "\<exists>pre d m. st1 = st\<lparr>trace := trace st @
            [IsSet False, ListUsbDevices, ListHidDevices, ListComPorts] @ pre @
            [SetDisplayByName d m True]\<rparr> \<and>
          list_all failedAttempt pre \<and>
          (d, m) \<in> set (fst (fst (iterate getDriversForConnectedUsbDevices env (snd (isSet env ev st)))))"
proof -
  let ?st0 = "st\<lparr>trace := trace st @ [IsSet False]\<rparr>"
  let ?g = "matchAllUsb (driverDevices st) (enumeratedUsb env ?st0)"
  let ?st2 = "st\<lparr>trace := trace st @ [IsSet False, ListUsbDevices, ListHidDevices, ListComPorts]\<rparr>"
  have nb: "\<not> fst (isSet env ev st)" using assms by (auto simp: usbStage_eq split: if_splits)
  then have i: "snd (isSet env ev st) = ?st0" using isSet_state[of env ev st] by simp
  have "usbLoop env ev (fst ?g) ?st2 = (Some Activated, st1)"
    using assms nb
    by (cases "usbLoop env ev (fst ?g) ?st2")
      (auto simp: usbStage_eq split: option.splits)
  from usbLoop_trace[OF this] obtain pre d m where
    "st1 = ?st2\<lparr>trace := trace ?st2 @ pre @ [SetDisplayByName d m True]\<rparr>"
    "list_all failedAttempt pre" "(d, m) \<in> set (fst ?g)"
    by auto
  then show ?thesis using i
    by (intro exI[of _ pre] exI[of _ d] exI[of _ m]) (simp add: iterate_usb_all)
qed

lemma example_usb_candidates:
  "matchAllUsb exampleRegistry ([hidMatch], None) = ([(''brailliantB'', hidMatch)], None)"
  by (simp add: matchAllUsb_def matchDevs_def contains_def exampleRegistry_def hidMatch_def
      KEY_HID_def KEY_CUSTOM_def KEY_SERIAL_def KEY_BLUETOOTH_def)

lemma succeedEnv_enumeratedUsb: "enumeratedUsb succeedEnv st = ([hidMatch], None)"
  by (simp add: enumeratedUsb_def succeedEnv_def exampleEnv_def usbDevs_def newDeviceMatch_def
      getitem_def hidPort_def btPort_def hidMatch_def)

lemma succeedEnv_simps:
  "stopAt succeedEnv = None"
  "activates succeedEnv t driver match = True"
  by (simp_all add: succeedEnv_def exampleEnv_def)

lemma succeedEnv_usbStage:
  "usbStage succeedEnv False exampleState =
     (Some Activated,
      exampleState\<lparr>trace := trace exampleState @
        [IsSet False, ListUsbDevices, ListHidDevices, ListComPorts, IsSet False,
         SetDisplayByName ''brailliantB'' hidMatch True]\<rparr>)"
  by (simp add: usbStage_eq succeedEnv_enumeratedUsb exampleState_simps example_usb_candidates
      isSet_def setDisplayByName_def succeedEnv_simps)

subsection \<open>The Bluetooth part of a pass\<close>

lemma failedAttempts_no_success:
  "list_all failedAttempt evs \<Longrightarrow> SetDisplayByName d m True \<notin> set evs"
  by (induction evs) auto

lemma matchAllBluetooth_registry:
  "onlyDefaultsInserted reg (snd (matchAllBluetooth ms reg))"
  by (simp add: matchAllBluetooth_eq onlyDefaultsInserted_refl onlyDefaultsInserted_touch)

lemma btCandidates_cached:
  "btComs st = Some c \<Longrightarrow> btCandidates env st = (Inr (c, c, False), st)"
  by (simp add: btCandidates_def)

lemma btCandidates_fresh:
  assumes "btComs st = None" and "btCandidates env st = (r, st2)"
  shows "\<exists>reg'. st2 = st\<lparr>driverDevices := reg', trace := trace st @ [ListComPorts]\<rparr> \<and>
           onlyDefaultsInserted (driverDevices st) reg' \<and>
           ((\<exists>e. r = Inl e) \<or> (\<exists>cands. r = Inr (cands, [], True)))"
proof (cases "snd (enumeratedBluetooth env st)")
  case None
  let ?r = "matchAllBluetooth (fst (enumeratedBluetooth env st)) (driverDevices st)"
  have "st2 = st\<lparr>driverDevices := snd ?r, trace := trace st @ [ListComPorts]\<rparr>"
    and "r = Inr (fst ?r, [], True)"
    using assms None by (auto simp: btCandidates_def iterate_bt_all)
  then show ?thesis using matchAllBluetooth_registry by blast
next
  case (Some e)
  then have "st2 = st\<lparr>driverDevices := driverDevices st, trace := trace st @ [ListComPorts]\<rparr>"
    and "r = Inl e"
    using assms by (auto simp: btCandidates_def iterate_bt_all)
  then show ?thesis using onlyDefaultsInserted_refl by blast
qed

lemma startBgScan_poll:
  "startBgScan False True POLL_INTERVAL st =
     st\<lparr>stopEvent := False, detectUsb := False, detectBluetooth := True,
        pollTimer := Some POLL_INTERVAL, trace := trace st @ [SetWaitableTimer POLL_INTERVAL]\<rparr>"
  by (simp add: startBgScan_def POLL_INTERVAL_def Let_def)

lemma btFinish_eq:
  "btFinish env ev fresh x c st =
     (if fst (isSet env ev st) then (Cancelled, st\<lparr>trace := trace st @ [IsSet True]\<rparr>)
      else if c \<noteq> [] then
        (x, st\<lparr>btComs := (if fresh then Some c else btComs st), stopEvent := False,
              detectUsb := False, detectBluetooth := True, pollTimer := Some POLL_INTERVAL,
              trace := trace st @ [IsSet False, SetWaitableTimer POLL_INTERVAL]\<rparr>)
      else (x, st\<lparr>btComs := (if fresh then Some c else btComs st),
                 trace := trace st @ [IsSet False]\<rparr>))"
  by (auto simp: btFinish_def isSet_def Let_def startBgScan_poll split: prod.splits bool.splits)

text \<open>What the loop and the code after it do, from the state \<open>st2\<close> in which the loop starts.\<close>

lemma btLoop_finish:
  assumes lp: "btLoop env ev fresh cands cache0 st2 = ((xl, c), st3)"
    and res: "(x, st') = (if xl = Cancelled then (Cancelled, st3) else btFinish env ev fresh xl c st3)"
  shows "\<exists>evs tl.
      trace st' = trace st2 @ evs @ tl \<and>
      driverDevices st' = driverDevices st2 \<and>
      (\<exists>rest. cands = attempts evs @ rest) \<and>
      list_all (\<lambda>e. \<not> enumeration e) evs \<and>
      (x = Cancelled \<and> (tl = [] \<or> tl = [IsSet True]) \<and>
         btComs st' = btComs st2 \<and> pollTimer st' = pollTimer st2
       \<or> (x = Finished \<and> list_all failedAttempt evs \<and> attempts evs = cands \<or>
           x = Activated \<and> (\<exists>pre d m. evs = pre @ [SetDisplayByName d m True])) \<and>
          c = (if fresh then cache0 @ attempts evs else cache0) \<and>
          btComs st' = (if fresh then Some c else btComs st2) \<and>
          tl = IsSet False # (if c = [] then [] else [SetWaitableTimer POLL_INTERVAL]) \<and>
          pollTimer st' = (if c = [] then pollTimer st2 else Some POLL_INTERVAL))"
proof -
  from btLoop_trace[OF lp] obtain evs where st3: "st3 = st2\<lparr>trace := trace st2 @ evs\<rparr>"
    and c: "c = (if fresh then cache0 @ attempts evs else cache0)"
    and pre: "\<exists>rest. cands = attempts evs @ rest"
    and fin: "xl = Finished \<longrightarrow> list_all failedAttempt evs \<and> attempts evs = cands"
    and can: "xl = Cancelled \<longrightarrow> (\<exists>pre. evs = pre @ [IsSet True] \<and> list_all failedAttempt pre)"
    and act: "xl = Activated \<longrightarrow>
       (\<exists>pre d m. evs = pre @ [SetDisplayByName d m True] \<and> list_all failedAttempt pre)"
    and xl: "xl = Finished \<or> xl = Cancelled \<or> xl = Activated"
    by blast
  have noenum: "list_all (\<lambda>e. \<not> enumeration e) evs"
  proof -
    consider "xl = Finished" | "xl = Cancelled" | "xl = Activated" using xl by blast
    then show ?thesis
    proof cases
      case 1
      then show ?thesis using fin failedAttempts_no_enumeration by blast
    next
      case 2
      then obtain p where "evs = p @ [IsSet True]" "list_all failedAttempt p" using can by blast
      then show ?thesis using failedAttempts_no_enumeration[of p] by simp
    next
      case 3
      then obtain p d m where "evs = p @ [SetDisplayByName d m True]" "list_all failedAttempt p"
        using act by blast
      then show ?thesis using failedAttempts_no_enumeration[of p] by simp
    qed
  qed
  have out: "x = Finished \<and> list_all failedAttempt evs \<and> attempts evs = cands \<or>
           x = Activated \<and> (\<exists>pre d m. evs = pre @ [SetDisplayByName d m True])"
    if "x = xl" "xl \<noteq> Cancelled"
    using that fin act xl by blast
  show ?thesis
  proof (cases "xl = Cancelled")
    case True
    then have x: "x = Cancelled" and s: "st' = st3" using res by simp_all
    have t: "trace st' = trace st2 @ evs @ []" unfolding s st3 by simp
    have d: "driverDevices st' = driverDevices st2" unfolding s st3 by simp
    have b: "btComs st' = btComs st2" unfolding s st3 by simp
    have p: "pollTimer st' = pollTimer st2" unfolding s st3 by simp
    show ?thesis
      apply (rule exI[of _ evs], rule exI[of _ "[]"])
      using t d pre noenum x b p by blast
  next
    case nc: False
    show ?thesis
    proof (cases "fst (isSet env ev st3)")
      case True
      then have x: "x = Cancelled" and s: "st' = st3\<lparr>trace := trace st3 @ [IsSet True]\<rparr>"
        using res nc by (simp_all add: btFinish_eq)
      have t: "trace st' = trace st2 @ evs @ [IsSet True]" unfolding s st3 by simp
      have d: "driverDevices st' = driverDevices st2" unfolding s st3 by simp
      have b: "btComs st' = btComs st2" unfolding s st3 by simp
      have p: "pollTimer st' = pollTimer st2" unfolding s st3 by simp
      show ?thesis
        apply (rule exI[of _ evs], rule exI[of _ "[IsSet True]"])
        using t d pre noenum x b p by blast
    next
      case b3: False
      show ?thesis
      proof (cases "c = []")
        case True
        have x: "x = xl" using res nc b3 True by (simp add: btFinish_eq)
        have s: "st' = st3\<lparr>btComs := (if fresh then Some c else btComs st3),
                 trace := trace st3 @ [IsSet False]\<rparr>"
          using res nc b3 True by (simp add: btFinish_eq)
        have t: "trace st' = trace st2 @ evs @ IsSet False # (if c = [] then [] else [SetWaitableTimer POLL_INTERVAL])"
          unfolding s st3 using True by simp
        have d: "driverDevices st' = driverDevices st2" unfolding s st3 by simp
        have b: "btComs st' = (if fresh then Some c else btComs st2)" unfolding s st3 by simp
        have p: "pollTimer st' = (if c = [] then pollTimer st2 else Some POLL_INTERVAL)"
          unfolding s st3 using True by simp
        show ?thesis
          apply (rule exI[of _ evs])
          apply (rule exI[of _ "IsSet False # (if c = [] then [] else [SetWaitableTimer POLL_INTERVAL])"])
          using t d pre noenum out[OF x nc] c b p by blast
      next
        case ne: False
        have x: "x = xl" using res nc b3 ne by (simp add: btFinish_eq)
        have s: "st' = st3\<lparr>btComs := (if fresh then Some c else btComs st3), stopEvent := False,
              detectUsb := False, detectBluetooth := True, pollTimer := Some POLL_INTERVAL,
              trace := trace st3 @ [IsSet False, SetWaitableTimer POLL_INTERVAL]\<rparr>"
          using res nc b3 ne by (simp add: btFinish_eq)
        have t: "trace st' = trace st2 @ evs @ IsSet False # (if c = [] then [] else [SetWaitableTimer POLL_INTERVAL])"
          unfolding s st3 using ne by simp
        have d: "driverDevices st' = driverDevices st2" unfolding s st3 by simp
        have b: "btComs st' = (if fresh then Some c else btComs st2)" unfolding s st3 by simp
        have p: "pollTimer st' = (if c = [] then pollTimer st2 else Some POLL_INTERVAL)"
          unfolding s st3 using ne by simp
        show ?thesis
          apply (rule exI[of _ evs])
          apply (rule exI[of _ "IsSet False # (if c = [] then [] else [SetWaitableTimer POLL_INTERVAL])"])
          using t d pre noenum out[OF x nc] c b p by blast
      qed
    qed
  qed
qed

lemma btStage_shape:
  assumes "btStage env ev st = (x, st')"
  shows "fst (isSet env ev st) \<and> x = Cancelled \<and> st' = st\<lparr>trace := trace st @ [IsSet True]\<rparr> \<or>
   \<not> fst (isSet env ev st) \<and> (\<exists>e2 evs tl.
      trace st' = trace st @ IsSet False # e2 @ evs @ tl \<and>
      onlyDefaultsInserted (driverDevices st) (driverDevices st') \<and>
      (btComs st = None \<longrightarrow> e2 = [ListComPorts]) \<and>
      (\<forall>k. btComs st = Some k \<longrightarrow>
         e2 = [] \<and> driverDevices st' = driverDevices st \<and> (\<exists>rest. k = attempts evs @ rest)) \<and>
      list_all (\<lambda>e. \<not> enumeration e) evs \<and>
      ((\<exists>e. x = Raised e) \<and> btComs st = None \<and> evs = [] \<and> tl = [] \<and> btComs st' = None \<and>
         pollTimer st' = pollTimer st
       \<or> x = Cancelled \<and> (tl = [] \<or> tl = [IsSet True]) \<and> btComs st' = btComs st \<and>
         pollTimer st' = pollTimer st
       \<or> (x = Finished \<and> list_all failedAttempt evs \<or>
           x = Activated \<and> (\<exists>pre d m. evs = pre @ [SetDisplayByName d m True])) \<and>
          (\<exists>c. c = (case btComs st of None \<Rightarrow> attempts evs | Some k \<Rightarrow> k) \<and>
             btComs st' = Some c \<and>
             tl = IsSet False # (if c = [] then [] else [SetWaitableTimer POLL_INTERVAL]) \<and>
             pollTimer st' = (if c = [] then pollTimer st else Some POLL_INTERVAL))))"
proof -
  let ?b = "fst (isSet env ev st)"
  let ?st1 = "st\<lparr>trace := trace st @ [IsSet ?b]\<rparr>"
  let ?OUT = "\<lambda>evs tl. (\<exists>e. x = Raised e) \<and> btComs st = None \<and> evs = [] \<and> tl = [] \<and> btComs st' = None \<and>
         pollTimer st' = pollTimer st
       \<or> x = Cancelled \<and> (tl = [] \<or> tl = [IsSet True]) \<and> btComs st' = btComs st \<and>
         pollTimer st' = pollTimer st
       \<or> (x = Finished \<and> list_all failedAttempt evs \<or>
           x = Activated \<and> (\<exists>pre d m. evs = pre @ [SetDisplayByName d m True])) \<and>
          (\<exists>c. c = (case btComs st of None \<Rightarrow> attempts evs | Some k \<Rightarrow> k) \<and>
             btComs st' = Some c \<and>
             tl = IsSet False # (if c = [] then [] else [SetWaitableTimer POLL_INTERVAL]) \<and>
             pollTimer st' = (if c = [] then pollTimer st else Some POLL_INTERVAL))"
  have i: "isSet env ev st = (?b, ?st1)"
    using isSet_state[of env ev st] by (cases "isSet env ev st") simp
  show ?thesis
  proof (cases ?b)
    case True
    then have "x = Cancelled" and "st' = ?st1" using assms i by (simp_all add: btStage_def)
    then have "fst (isSet env ev st) \<and> x = Cancelled \<and> st' = st\<lparr>trace := trace st @ [IsSet True]\<rparr>"
      using True by simp
    then show ?thesis by (rule disjI1)
  next
    case False
    obtain r st2 where bc: "btCandidates env ?st1 = (r, st2)" by (cases "btCandidates env ?st1")
    have "\<exists>e2. trace st2 = trace st @ IsSet False # e2 \<and>
        onlyDefaultsInserted (driverDevices st) (driverDevices st2) \<and>
        btComs st2 = btComs st \<and> pollTimer st2 = pollTimer st \<and>
        (btComs st = None \<longrightarrow> e2 = [ListComPorts] \<and>
           ((\<exists>e. r = Inl e) \<or> (\<exists>cands. r = Inr (cands, [], True)))) \<and>
        (\<forall>k. btComs st = Some k \<longrightarrow>
           e2 = [] \<and> driverDevices st2 = driverDevices st \<and> r = Inr (k, k, False))"
    proof (cases "btComs st")
      case None
      then have "btComs ?st1 = None" by simp
      from btCandidates_fresh[OF this bc] obtain reg' where
        s: "st2 = ?st1\<lparr>driverDevices := reg', trace := trace ?st1 @ [ListComPorts]\<rparr>"
        and o: "onlyDefaultsInserted (driverDevices ?st1) reg'"
        and rr: "(\<exists>e. r = Inl e) \<or> (\<exists>cands. r = Inr (cands, [], True))"
        by blast
      have t: "trace st2 = trace st @ IsSet False # [ListComPorts]" unfolding s using False by simp
      have d: "onlyDefaultsInserted (driverDevices st) (driverDevices st2)" unfolding s using o by simp
      have b: "btComs st2 = btComs st" unfolding s by simp
      have p: "pollTimer st2 = pollTimer st" unfolding s by simp
      have n1: "btComs st = None \<longrightarrow> [ListComPorts] = [ListComPorts] \<and>
           ((\<exists>e. r = Inl e) \<or> (\<exists>cands. r = Inr (cands, [], True)))"
        using rr by simp
      have n2: "\<forall>k. btComs st = Some k \<longrightarrow>
           [ListComPorts] = [] \<and> driverDevices st2 = driverDevices st \<and> r = Inr (k, k, False)"
        using None by simp
      show ?thesis
        by (rule exI[of _ "[ListComPorts]"]) (intro conjI t d b p n1 n2)
    next
      case (Some k)
      then have "btCandidates env ?st1 = (Inr (k, k, False), ?st1)"
        by (simp add: btCandidates_cached)
      then have r: "r = Inr (k, k, False)" and s: "st2 = ?st1" using bc by simp_all
      have t: "trace st2 = trace st @ IsSet False # []" unfolding s using False by simp
      have d: "onlyDefaultsInserted (driverDevices st) (driverDevices st2)"
        unfolding s by (simp add: onlyDefaultsInserted_refl)
      have b: "btComs st2 = btComs st" unfolding s by simp
      have p: "pollTimer st2 = pollTimer st" unfolding s by simp
      have n1: "btComs st = None \<longrightarrow> [] = [ListComPorts] \<and>
           ((\<exists>e. r = Inl e) \<or> (\<exists>cands. r = Inr (cands, [], True)))"
        using Some by simp
      have n2: "\<forall>k. btComs st = Some k \<longrightarrow>
           [] = [] \<and> driverDevices st2 = driverDevices st \<and> r = Inr (k, k, False)"
        unfolding s using Some r by simp
      show ?thesis
        by (rule exI[of _ "[]"]) (intro conjI t d b p n1 n2)
    qed
    then obtain e2 where h2: "trace st2 = trace st @ IsSet False # e2 \<and>
        onlyDefaultsInserted (driverDevices st) (driverDevices st2) \<and>
        btComs st2 = btComs st \<and> pollTimer st2 = pollTimer st \<and>
        (btComs st = None \<longrightarrow> e2 = [ListComPorts] \<and>
           ((\<exists>e. r = Inl e) \<or> (\<exists>cands. r = Inr (cands, [], True)))) \<and>
        (\<forall>k. btComs st = Some k \<longrightarrow>
           e2 = [] \<and> driverDevices st2 = driverDevices st \<and> r = Inr (k, k, False))" ..
    have t2: "trace st2 = trace st @ IsSet False # e2" using h2 by (rule conjunct1)
    have d2: "onlyDefaultsInserted (driverDevices st) (driverDevices st2)"
      using h2 by (rule conjunct2[THEN conjunct1])
    have b2: "btComs st2 = btComs st"
      using h2 by (rule conjunct2[THEN conjunct2, THEN conjunct1])
    have p2: "pollTimer st2 = pollTimer st"
      using h2 by (rule conjunct2[THEN conjunct2, THEN conjunct2, THEN conjunct1])
    have fr: "btComs st = None \<longrightarrow> e2 = [ListComPorts] \<and>
           ((\<exists>e. r = Inl e) \<or> (\<exists>cands. r = Inr (cands, [], True)))"
      using h2 by (rule conjunct2[THEN conjunct2, THEN conjunct2, THEN conjunct2, THEN conjunct1])
    have ca: "\<forall>k. btComs st = Some k \<longrightarrow>
           e2 = [] \<and> driverDevices st2 = driverDevices st \<and> r = Inr (k, k, False)"
      using h2 by (rule conjunct2[THEN conjunct2, THEN conjunct2, THEN conjunct2, THEN conjunct2])
    have e2n: "btComs st = None \<longrightarrow> e2 = [ListComPorts]" using fr by simp
    have body: "\<exists>e2 evs tl.
      trace st' = trace st @ IsSet False # e2 @ evs @ tl \<and>
      onlyDefaultsInserted (driverDevices st) (driverDevices st') \<and>
      (btComs st = None \<longrightarrow> e2 = [ListComPorts]) \<and>
      (\<forall>k. btComs st = Some k \<longrightarrow>
         e2 = [] \<and> driverDevices st' = driverDevices st \<and> (\<exists>rest. k = attempts evs @ rest)) \<and>
      list_all (\<lambda>e. \<not> enumeration e) evs \<and> ?OUT evs tl"
    proof (cases r)
      case (Inl e)
      then have n: "btComs st = None" using ca by (cases "btComs st") auto
      have x: "x = Raised e" and s: "st' = st2" using assms i False bc Inl by (simp_all add: btStage_def)
      have t: "trace st' = trace st @ IsSet False # e2 @ [] @ []" unfolding s using t2 by simp
      have d: "onlyDefaultsInserted (driverDevices st) (driverDevices st')" unfolding s by (rule d2)
      have k: "\<forall>k. btComs st = Some k \<longrightarrow>
         e2 = [] \<and> driverDevices st' = driverDevices st \<and> (\<exists>rest. k = attempts [] @ rest)"
        using n by simp
      have l: "list_all (\<lambda>e. \<not> enumeration e) []" by simp
      have "(\<exists>e. x = Raised e) \<and> btComs st = None \<and> ([]::event list) = [] \<and> ([]::event list) = [] \<and>
          btComs st' = None \<and> pollTimer st' = pollTimer st"
        unfolding s using x n b2 p2 by simp
      then have o: "?OUT [] []" by (rule disjI1)
      show ?thesis
        by (rule exI[of _ e2], rule exI[of _ "[]"], rule exI[of _ "[]"]) (intro conjI t d e2n k l o)
    next
      case (Inr tp)
      obtain cands cache0 fresh where tp: "tp = (cands, cache0, fresh)" by (cases tp)
      obtain xl c st3 where lp: "btLoop env ev fresh cands cache0 st2 = ((xl, c), st3)"
        by (cases "btLoop env ev fresh cands cache0 st2") auto
      have res: "(x, st') = (if xl = Cancelled then (Cancelled, st3) else btFinish env ev fresh xl c st3)"
        using assms i False bc Inr tp lp by (cases xl) (simp_all add: btStage_def)
      have tf: "btComs st = None \<longrightarrow> fresh \<and> cache0 = []" using fr Inr tp by auto
      have tc: "\<forall>k. btComs st = Some k \<longrightarrow> \<not> fresh \<and> cache0 = k \<and> cands = k"
        using ca Inr tp by auto
      from btLoop_finish[OF lp res] obtain evs where "\<exists>tl.
          trace st' = trace st2 @ evs @ tl \<and>
          driverDevices st' = driverDevices st2 \<and>
          (\<exists>rest. cands = attempts evs @ rest) \<and>
          list_all (\<lambda>e. \<not> enumeration e) evs \<and>
          (x = Cancelled \<and> (tl = [] \<or> tl = [IsSet True]) \<and>
             btComs st' = btComs st2 \<and> pollTimer st' = pollTimer st2
           \<or> (x = Finished \<and> list_all failedAttempt evs \<and> attempts evs = cands \<or>
               x = Activated \<and> (\<exists>pre d m. evs = pre @ [SetDisplayByName d m True])) \<and>
              c = (if fresh then cache0 @ attempts evs else cache0) \<and>
              btComs st' = (if fresh then Some c else btComs st2) \<and>
              tl = IsSet False # (if c = [] then [] else [SetWaitableTimer POLL_INTERVAL]) \<and>
              pollTimer st' = (if c = [] then pollTimer st2 else Some POLL_INTERVAL))" ..
      then obtain tl where h3: "trace st' = trace st2 @ evs @ tl \<and>
          driverDevices st' = driverDevices st2 \<and>
          (\<exists>rest. cands = attempts evs @ rest) \<and>
          list_all (\<lambda>e. \<not> enumeration e) evs \<and>
          (x = Cancelled \<and> (tl = [] \<or> tl = [IsSet True]) \<and>
             btComs st' = btComs st2 \<and> pollTimer st' = pollTimer st2
           \<or> (x = Finished \<and> list_all failedAttempt evs \<and> attempts evs = cands \<or>
               x = Activated \<and> (\<exists>pre d m. evs = pre @ [SetDisplayByName d m True])) \<and>
              c = (if fresh then cache0 @ attempts evs else cache0) \<and>
              btComs st' = (if fresh then Some c else btComs st2) \<and>
              tl = IsSet False # (if c = [] then [] else [SetWaitableTimer POLL_INTERVAL]) \<and>
              pollTimer st' = (if c = [] then pollTimer st2 else Some POLL_INTERVAL))" ..
      have t: "trace st' = trace st2 @ evs @ tl" using h3 by (rule conjunct1)
      have d: "driverDevices st' = driverDevices st2" using h3 by (rule conjunct2[THEN conjunct1])
      have pre: "\<exists>rest. cands = attempts evs @ rest"
        using h3 by (rule conjunct2[THEN conjunct2, THEN conjunct1])
      have noenum: "list_all (\<lambda>e. \<not> enumeration e) evs"
        using h3 by (rule conjunct2[THEN conjunct2, THEN conjunct2, THEN conjunct1])
      have out: "x = Cancelled \<and> (tl = [] \<or> tl = [IsSet True]) \<and>
             btComs st' = btComs st2 \<and> pollTimer st' = pollTimer st2
           \<or> (x = Finished \<and> list_all failedAttempt evs \<and> attempts evs = cands \<or>
               x = Activated \<and> (\<exists>pre d m. evs = pre @ [SetDisplayByName d m True])) \<and>
              c = (if fresh then cache0 @ attempts evs else cache0) \<and>
              btComs st' = (if fresh then Some c else btComs st2) \<and>
              tl = IsSet False # (if c = [] then [] else [SetWaitableTimer POLL_INTERVAL]) \<and>
              pollTimer st' = (if c = [] then pollTimer st2 else Some POLL_INTERVAL)"
        using h3 by (rule conjunct2[THEN conjunct2, THEN conjunct2, THEN conjunct2])
      have t': "trace st' = trace st @ IsSet False # e2 @ evs @ tl" using t t2 by simp
      have d': "onlyDefaultsInserted (driverDevices st) (driverDevices st')" using d d2 by simp
      have k': "\<forall>k. btComs st = Some k \<longrightarrow>
         e2 = [] \<and> driverDevices st' = driverDevices st \<and> (\<exists>rest. k = attempts evs @ rest)"
      proof (intro allI impI)
        fix k assume k: "btComs st = Some k"
        then have "e2 = []" "driverDevices st2 = driverDevices st" "cands = k" using ca tc by simp_all
        then show "e2 = [] \<and> driverDevices st' = driverDevices st \<and> (\<exists>rest. k = attempts evs @ rest)"
          using pre d by simp
      qed
      have cc: "c = (case btComs st of None \<Rightarrow> attempts evs | Some k \<Rightarrow> k)"
        if "c = (if fresh then cache0 @ attempts evs else cache0)"
        using that tf tc by (cases "btComs st") auto
      have bb: "btComs st' = Some c" if "btComs st' = (if fresh then Some c else btComs st2)"
        and "c = (if fresh then cache0 @ attempts evs else cache0)"
        using that tf tc b2 by (cases "btComs st") auto
      have fin: "\<exists>c. c = (case btComs st of None \<Rightarrow> attempts evs | Some k \<Rightarrow> k) \<and>
             btComs st' = Some c \<and>
             tl = IsSet False # (if c = [] then [] else [SetWaitableTimer POLL_INTERVAL]) \<and>
             pollTimer st' = (if c = [] then pollTimer st else Some POLL_INTERVAL)"
        if a: "c = (if fresh then cache0 @ attempts evs else cache0)"
          "btComs st' = (if fresh then Some c else btComs st2)"
          "tl = IsSet False # (if c = [] then [] else [SetWaitableTimer POLL_INTERVAL])"
          "pollTimer st' = (if c = [] then pollTimer st2 else Some POLL_INTERVAL)"
      proof -
        have 1: "c = (case btComs st of None \<Rightarrow> attempts evs | Some k \<Rightarrow> k)" using cc[OF a(1)] .
        have 2: "btComs st' = Some c" using bb[OF a(2,1)] .
        have 4: "pollTimer st' = (if c = [] then pollTimer st else Some POLL_INTERVAL)"
          using a(4) p2 by simp
        show ?thesis by (rule exI[of _ c]) (intro conjI 1 2 a(3) 4)
      qed
      from out have o: "?OUT evs tl"
      proof (rule disjE)
        assume a: "x = Cancelled \<and> (tl = [] \<or> tl = [IsSet True]) \<and>
             btComs st' = btComs st2 \<and> pollTimer st' = pollTimer st2"
        have "x = Cancelled \<and> (tl = [] \<or> tl = [IsSet True]) \<and> btComs st' = btComs st \<and>
           pollTimer st' = pollTimer st"
          using a b2 p2 by simp
        then show ?thesis by (rule disjI2[OF disjI1])
      next
        assume a: "(x = Finished \<and> list_all failedAttempt evs \<and> attempts evs = cands \<or>
               x = Activated \<and> (\<exists>pre d m. evs = pre @ [SetDisplayByName d m True])) \<and>
              c = (if fresh then cache0 @ attempts evs else cache0) \<and>
              btComs st' = (if fresh then Some c else btComs st2) \<and>
              tl = IsSet False # (if c = [] then [] else [SetWaitableTimer POLL_INTERVAL]) \<and>
              pollTimer st' = (if c = [] then pollTimer st2 else Some POLL_INTERVAL)"
        have a1: "x = Finished \<and> list_all failedAttempt evs \<and> attempts evs = cands \<or>
               x = Activated \<and> (\<exists>pre d m. evs = pre @ [SetDisplayByName d m True])"
          using a by (rule conjunct1)
        have a2: "c = (if fresh then cache0 @ attempts evs else cache0)"
          using a by (rule conjunct2[THEN conjunct1])
        have a3: "btComs st' = (if fresh then Some c else btComs st2)"
          using a by (rule conjunct2[THEN conjunct2, THEN conjunct1])
        have a4: "tl = IsSet False # (if c = [] then [] else [SetWaitableTimer POLL_INTERVAL])"
          using a by (rule conjunct2[THEN conjunct2, THEN conjunct2, THEN conjunct1])
        have a5: "pollTimer st' = (if c = [] then pollTimer st2 else Some POLL_INTERVAL)"
          using a by (rule conjunct2[THEN conjunct2, THEN conjunct2, THEN conjunct2])
        have f: "x = Finished \<and> list_all failedAttempt evs \<or>
           x = Activated \<and> (\<exists>pre d m. evs = pre @ [SetDisplayByName d m True])"
          using a1 by blast
        show ?thesis by (rule disjI2[OF disjI2[OF conjI[OF f fin[OF a2 a3 a4 a5]]]])
      qed
      show ?thesis
        by (rule exI[of _ e2], rule exI[of _ evs], rule exI[of _ tl]) (intro conjI t' d' e2n k' noenum o)
    qed
    show ?thesis by (rule disjI2, rule conjI[OF False body])
  qed
qed

lemma btStage_registry:
  assumes "btStage env ev st = (x, st')"
  shows "onlyDefaultsInserted (driverDevices st) (driverDevices st')"
  using btStage_shape[OF assms] by (auto simp: onlyDefaultsInserted_refl)

lemma btStage_trace:
  assumes "btStage env ev st = (x, st')"
  shows "trace st' = trace st @ newEvents st st'"
  using btStage_shape[OF assms] by (auto simp: newEvents_def)

lemma btStage_abort:
  assumes "btStage env ev st = (x, st')" and "x = Cancelled \<or> x = Raised e"
  shows "btComs st' = btComs st \<and> pollTimer st' = pollTimer st"
  using btStage_shape[OF assms(1)] assms(2) by auto

lemma btStage_timer:
  assumes "btStage env ev st = (x, st')" and "x = Finished \<or> x = Activated"
  shows "\<exists>c. btComs st' = Some c \<and>
           pollTimer st' = (if c = [] then pollTimer st else Some POLL_INTERVAL)"
  using btStage_shape[OF assms(1)] assms(2) by auto

lemma not_enumeration_tail:
  "ts = [] \<or> ts = [IsSet True] \<or>
   ts = IsSet False # (if c = [] then [] else [SetWaitableTimer POLL_INTERVAL]) \<Longrightarrow>
   list_all (\<lambda>e. \<not> enumeration e) ts \<and> attempts ts = [] \<and>
   (\<forall>d m. SetDisplayByName d m True \<notin> set ts)"
  by (auto split: if_splits)




lemma btStage_finished_no_success:
  assumes "btStage env ev st = (x, st')" and "x = Finished"
  shows "SetDisplayByName d m True \<notin> set (newEvents st st')"
proof -
  let ?BODY = "\<lambda>e2 evs ts.
      trace st' = trace st @ IsSet False # e2 @ evs @ ts \<and>
      onlyDefaultsInserted (driverDevices st) (driverDevices st') \<and>
      (btComs st = None \<longrightarrow> e2 = [ListComPorts]) \<and>
      (\<forall>k. btComs st = Some k \<longrightarrow>
         e2 = [] \<and> driverDevices st' = driverDevices st \<and> (\<exists>rest. k = attempts evs @ rest)) \<and>
      list_all (\<lambda>e. \<not> enumeration e) evs \<and>
      ((\<exists>e. x = Raised e) \<and> btComs st = None \<and> evs = [] \<and> ts = [] \<and> btComs st' = None \<and>
         pollTimer st' = pollTimer st
       \<or> x = Cancelled \<and> (ts = [] \<or> ts = [IsSet True]) \<and> btComs st' = btComs st \<and>
         pollTimer st' = pollTimer st
       \<or> (x = Finished \<and> list_all failedAttempt evs \<or>
           x = Activated \<and> (\<exists>pre d m. evs = pre @ [SetDisplayByName d m True])) \<and>
          (\<exists>c. c = (case btComs st of None \<Rightarrow> attempts evs | Some k \<Rightarrow> k) \<and>
             btComs st' = Some c \<and>
             ts = IsSet False # (if c = [] then [] else [SetWaitableTimer POLL_INTERVAL]) \<and>
             pollTimer st' = (if c = [] then pollTimer st else Some POLL_INTERVAL)))"
  from btStage_shape[OF assms(1)] show ?thesis
  proof (rule disjE)
    assume "fst (isSet env ev st) \<and> x = Cancelled \<and> st' = st\<lparr>trace := trace st @ [IsSet True]\<rparr>"
    then show ?thesis using assms(2) by simp
  next
    assume "\<not> fst (isSet env ev st) \<and> (\<exists>e2 evs ts. ?BODY e2 evs ts)"
    then have "\<exists>e2 evs ts. ?BODY e2 evs ts" by (rule conjunct2)
    then obtain e2 where "\<exists>evs ts. ?BODY e2 evs ts" ..
    then obtain evs where "\<exists>ts. ?BODY e2 evs ts" ..
    then obtain ts where body: "?BODY e2 evs ts" ..
    have t: "trace st' = trace st @ IsSet False # e2 @ evs @ ts" using body by (rule conjunct1)
    have n: "btComs st = None \<longrightarrow> e2 = [ListComPorts]"
      using body by (rule conjunct2[THEN conjunct2, THEN conjunct1])
    have k: "\<forall>k. btComs st = Some k \<longrightarrow>
         e2 = [] \<and> driverDevices st' = driverDevices st \<and> (\<exists>rest. k = attempts evs @ rest)"
      using body by (rule conjunct2[THEN conjunct2, THEN conjunct2, THEN conjunct1])
    have out: "(\<exists>e. x = Raised e) \<and> btComs st = None \<and> evs = [] \<and> ts = [] \<and> btComs st' = None \<and>
         pollTimer st' = pollTimer st
       \<or> x = Cancelled \<and> (ts = [] \<or> ts = [IsSet True]) \<and> btComs st' = btComs st \<and>
         pollTimer st' = pollTimer st
       \<or> (x = Finished \<and> list_all failedAttempt evs \<or>
           x = Activated \<and> (\<exists>pre d m. evs = pre @ [SetDisplayByName d m True])) \<and>
          (\<exists>c. c = (case btComs st of None \<Rightarrow> attempts evs | Some k \<Rightarrow> k) \<and>
             btComs st' = Some c \<and>
             ts = IsSet False # (if c = [] then [] else [SetWaitableTimer POLL_INTERVAL]) \<and>
             pollTimer st' = (if c = [] then pollTimer st else Some POLL_INTERVAL))"
      using body by (rule conjunct2[THEN conjunct2, THEN conjunct2, THEN conjunct2, THEN conjunct2])
    have f: "list_all failedAttempt evs" using out assms(2) by auto
    have "\<exists>c. ts = IsSet False # (if c = [] then [] else [SetWaitableTimer POLL_INTERVAL])"
      using out assms(2) by auto
    then obtain c where ts: "ts = IsSet False # (if c = [] then [] else [SetWaitableTimer POLL_INTERVAL])" ..
    have e2: "e2 = [] \<or> e2 = [ListComPorts]" using n k by (cases "btComs st") auto
    have 1: "SetDisplayByName d m True \<notin> set evs" using failedAttempts_no_success[OF f] .
    have 2: "SetDisplayByName d m True \<notin> set ts" using not_enumeration_tail[of ts c] ts by blast
    have 3: "SetDisplayByName d m True \<notin> set e2" using e2 by auto
    have "newEvents st st' = IsSet False # e2 @ evs @ ts" using t by (simp add: newEvents_def)
    then show ?thesis using 1 2 3 by simp
  qed
qed

subsection \<open>A whole pass\<close>

lemma usbStage_state:
  assumes "usbStage env ev st = (r, st1)"
  shows "\<exists>evs. st1 = st\<lparr>trace := trace st @ evs\<rparr> \<and>
           (r = None \<longrightarrow> (\<forall>d m. SetDisplayByName d m True \<notin> set evs))"
proof (cases "fst (isSet env ev st)")
  case True
  then have "st1 = st\<lparr>trace := trace st @ [IsSet True]\<rparr>" using assms by (simp add: usbStage_eq)
  moreover have "r \<noteq> None" using True assms by (auto simp: usbStage_eq)
  ultimately show ?thesis by blast
next
  case False
  let ?g = "matchAllUsb (driverDevices st) (enumeratedUsb env (st\<lparr>trace := trace st @ [IsSet False]\<rparr>))"
  let ?st2 = "st\<lparr>trace := trace st @ [IsSet False, ListUsbDevices, ListHidDevices, ListComPorts]\<rparr>"
  obtain r1 st3 where lp: "usbLoop env ev (fst ?g) ?st2 = (r1, st3)"
    by (cases "usbLoop env ev (fst ?g) ?st2")
  have s: "st1 = st3" and rr: "r = None \<longrightarrow> r1 = None"
    using assms False lp by (auto simp: usbStage_eq split: option.splits)
  from usbLoop_trace[OF lp] obtain evs where e: "st3 = ?st2\<lparr>trace := trace ?st2 @ evs\<rparr>"
    and f: "r1 = None \<longrightarrow> list_all failedAttempt evs"
    by blast
  have 1: "st1 = st\<lparr>trace := trace st @ [IsSet False, ListUsbDevices, ListHidDevices, ListComPorts] @ evs\<rparr>"
    unfolding s e by simp
  have 2: "r = None \<longrightarrow>
      (\<forall>d m. SetDisplayByName d m True \<notin> set ([IsSet False, ListUsbDevices, ListHidDevices, ListComPorts] @ evs))"
    using rr f failedAttempts_no_success by auto
  show ?thesis
    by (rule exI[of _ "[IsSet False, ListUsbDevices, ListHidDevices, ListComPorts] @ evs"])
      (rule conjI[OF 1 2])
qed

lemma bgScan_split:
  assumes "bgScan env st = (x, st')"
  shows "\<exists>evs.
     (st' = st\<lparr>trace := trace st @ evs\<rparr> \<and>
       (x = Finished \<longrightarrow> \<not> detectBluetooth st \<and> (\<forall>d m. SetDisplayByName d m True \<notin> set evs)))
     \<or> (detectBluetooth st \<and> (\<forall>d m. SetDisplayByName d m True \<notin> set evs) \<and>
        (\<not> detectUsb st \<longrightarrow> evs = []) \<and>
        btStage env (stopEvent st) (st\<lparr>trace := trace st @ evs\<rparr>) = (x, st'))"
proof (cases "detectUsb st")
  case True
  obtain r st1 where u: "usbStage env (stopEvent st) st = (r, st1)"
    by (cases "usbStage env (stopEvent st) st")
  from usbStage_state[OF u] obtain evs where s: "st1 = st\<lparr>trace := trace st @ evs\<rparr>"
    and n: "r = None \<longrightarrow> (\<forall>d m. SetDisplayByName d m True \<notin> set evs)"
    by blast
  show ?thesis
  proof (cases r)
    case None
    show ?thesis
    proof (cases "detectBluetooth st")
      case b: True
      have "btStage env (stopEvent st) (st\<lparr>trace := trace st @ evs\<rparr>) = (x, st')"
        using assms True u None b s by (simp add: bgScan_def Let_def)
      then show ?thesis using b n None True by blast
    next
      case b: False
      have "x = Finished" "st' = st\<lparr>trace := trace st @ evs\<rparr>"
        using assms True u None b s by (simp_all add: bgScan_def Let_def)
      then show ?thesis using b n None by blast
    qed
  next
    case (Some y)
    have "x = y" "st' = st\<lparr>trace := trace st @ evs\<rparr>"
      using assms True u Some s by (simp_all add: bgScan_def Let_def)
    moreover have "y \<noteq> Finished"
      using u Some by (auto simp: usbStage_eq split: if_splits prod.splits option.splits
          dest: usbLoop_trace)
    ultimately show ?thesis by blast
  qed
next
  case False
  show ?thesis
  proof (cases "detectBluetooth st")
    case b: True
    have "btStage env (stopEvent st) (st\<lparr>trace := trace st @ []\<rparr>) = (x, st')"
      using assms False b by (simp add: bgScan_def Let_def)
    then show ?thesis using b False by (intro exI[of _ "[]"]) simp
  next
    case b: False
    have "x = Finished" "st' = st\<lparr>trace := trace st @ []\<rparr>"
      using assms False b by (simp_all add: bgScan_def Let_def)
    then show ?thesis using b by (intro exI[of _ "[]"]) simp
  qed
qed

lemma newEvents_shift:
  "trace st' = trace (st\<lparr>trace := trace st @ evs\<rparr>) @ n \<Longrightarrow> newEvents st st' = evs @ n"
  by (simp add: newEvents_def)

lemma bgScan_registry:
  assumes "bgScan env st = (x, st')"
  shows "onlyDefaultsInserted (driverDevices st) (driverDevices st')"
proof -
  from bgScan_split[OF assms] obtain evs where
    "st' = st\<lparr>trace := trace st @ evs\<rparr> \<or>
     btStage env (stopEvent st) (st\<lparr>trace := trace st @ evs\<rparr>) = (x, st')"
    by blast
  then show ?thesis
  proof
    assume "st' = st\<lparr>trace := trace st @ evs\<rparr>"
    then show ?thesis by (simp add: onlyDefaultsInserted_refl)
  next
    assume "btStage env (stopEvent st) (st\<lparr>trace := trace st @ evs\<rparr>) = (x, st')"
    from btStage_registry[OF this] show ?thesis by simp
  qed
qed


lemma bgScan_abort:
  assumes "bgScan env st = (x, st')" and "x = Cancelled \<or> x = Raised e"
  shows "btComs st' = btComs st \<and> pollTimer st' = pollTimer st"
proof -
  from bgScan_split[OF assms(1)] obtain evs where
    "st' = st\<lparr>trace := trace st @ evs\<rparr> \<or>
     btStage env (stopEvent st) (st\<lparr>trace := trace st @ evs\<rparr>) = (x, st')"
    by blast
  then show ?thesis
  proof
    assume "st' = st\<lparr>trace := trace st @ evs\<rparr>"
    then show ?thesis by simp
  next
    assume b: "btStage env (stopEvent st) (st\<lparr>trace := trace st @ evs\<rparr>) = (x, st')"
    from btStage_abort[OF b assms(2)] show ?thesis by simp
  qed
qed

lemma bgScan_timer:
  assumes "bgScan env st = (x, st')" and "pollTimer st' \<noteq> pollTimer st"
  shows "pollTimer st' = Some POLL_INTERVAL \<and> detectBluetooth st \<and>
     (x = Finished \<or> x = Activated) \<and> (\<exists>c. btComs st' = Some c \<and> c \<noteq> [])"
proof -
  from bgScan_split[OF assms(1)] obtain evs where
    "st' = st\<lparr>trace := trace st @ evs\<rparr> \<or>
     detectBluetooth st \<and> btStage env (stopEvent st) (st\<lparr>trace := trace st @ evs\<rparr>) = (x, st')"
    by blast
  then show ?thesis
  proof
    assume "st' = st\<lparr>trace := trace st @ evs\<rparr>"
    then show ?thesis using assms(2) by simp
  next
    assume a: "detectBluetooth st \<and> btStage env (stopEvent st) (st\<lparr>trace := trace st @ evs\<rparr>) = (x, st')"
    then have b: "btStage env (stopEvent st) (st\<lparr>trace := trace st @ evs\<rparr>) = (x, st')" by simp
    have x: "x = Finished \<or> x = Activated"
    proof (rule ccontr)
      assume "\<not> (x = Finished \<or> x = Activated)"
      then have "x = Cancelled \<or> (\<exists>e. x = Raised e)" by (cases x) auto
      then show False using btStage_abort[OF b] assms(2) by auto
    qed
    from btStage_timer[OF b x] obtain c where "btComs st' = Some c"
      "pollTimer st' = (if c = [] then pollTimer (st\<lparr>trace := trace st @ evs\<rparr>) else Some POLL_INTERVAL)"
      by blast
    then show ?thesis using a x assms(2) by (cases "c = []") simp_all
  qed
qed

lemma bgScan_finished:
  assumes "bgScan env st = (x, st')" and "x = Finished"
  shows "(\<forall>d m. SetDisplayByName d m True \<notin> set (newEvents st st')) \<and>
     (detectBluetooth st \<longrightarrow>
        (\<exists>c. btComs st' = Some c \<and>
           pollTimer st' = (if c = [] then pollTimer st else Some POLL_INTERVAL))) \<and>
     (\<not> detectBluetooth st \<longrightarrow> pollTimer st' = pollTimer st \<and> btComs st' = btComs st)"
proof -
  from bgScan_split[OF assms(1)] obtain evs where
    "st' = st\<lparr>trace := trace st @ evs\<rparr> \<and> \<not> detectBluetooth st \<and>
       (\<forall>d m. SetDisplayByName d m True \<notin> set evs) \<or>
     detectBluetooth st \<and> (\<forall>d m. SetDisplayByName d m True \<notin> set evs) \<and>
       btStage env (stopEvent st) (st\<lparr>trace := trace st @ evs\<rparr>) = (x, st')"
    using assms(2) by blast
  then show ?thesis
  proof
    assume "st' = st\<lparr>trace := trace st @ evs\<rparr> \<and> \<not> detectBluetooth st \<and>
       (\<forall>d m. SetDisplayByName d m True \<notin> set evs)"
    then show ?thesis by (simp add: newEvents_def)
  next
    assume a: "detectBluetooth st \<and> (\<forall>d m. SetDisplayByName d m True \<notin> set evs) \<and>
       btStage env (stopEvent st) (st\<lparr>trace := trace st @ evs\<rparr>) = (x, st')"
    then have b: "btStage env (stopEvent st) (st\<lparr>trace := trace st @ evs\<rparr>) = (x, st')" by simp
    let ?st1 = "st\<lparr>trace := trace st @ evs\<rparr>"
    have n: "newEvents st st' = evs @ newEvents ?st1 st'"
      using btStage_trace[OF b] by (rule newEvents_shift)
    have 1: "\<forall>d m. SetDisplayByName d m True \<notin> set (newEvents st st')"
      unfolding n using a btStage_finished_no_success[OF b assms(2)] by simp
    from btStage_timer[OF b] assms(2) obtain c where c: "btComs st' = Some c"
      "pollTimer st' = (if c = [] then pollTimer ?st1 else Some POLL_INTERVAL)"
      by blast
    have "pollTimer st' = (if c = [] then pollTimer st else Some POLL_INTERVAL)"
      using c(2) by simp
    then have 2: "\<exists>c. btComs st' = Some c \<and>
           pollTimer st' = (if c = [] then pollTimer st else Some POLL_INTERVAL)"
      using c(1) by blast
    show ?thesis using 1 2 a by simp
  qed
qed

lemma bgScan_no_usb:
  "\<not> detectUsb st \<Longrightarrow>
   bgScan env st =
     (if detectBluetooth st then btStage env (stopEvent st) st else (Finished, st))"
  by (simp add: bgScan_def Let_def)


subsection \<open>The cache between passes\<close>




lemma rescan_resets:
  "fst (rescan env st) = None \<Longrightarrow>
   btComs (snd (rescan env st)) = None \<and> detectUsb (snd (rescan env st)) \<and>
   detectBluetooth (snd (rescan env st)) \<and>
   (\<exists>evs. trace (snd (rescan env st)) = trace st @ evs @ [QueueApc])"
  by (auto simp: rescan_def stopBgScan_def startBgScan_def Let_def
      split: prod.splits option.splits if_splits)

lemma exampleEnv_simps:
  "stopAt exampleEnv = None"
  "activates exampleEnv t driver match = False"
  "cancelSucceeds exampleEnv t = True"
  by (simp_all add: exampleEnv_def)

lemma pollState_simps:
  "driverDevices pollState = exampleRegistry"
  "btComs pollState = Some [(''brailliantB'', btMatch)]"
  "\<not> detectUsb pollState"
  "detectBluetooth pollState"
  "\<not> stopEvent pollState"
  "pollTimerHandle pollState = 1"
  "pollTimer pollState = None"
  "trace pollState = [RegisterCallback, QueueApc]"
  by (simp_all add: pollState_def exampleState_def detectorInit_def startBgScan_def)

subsection \<open>What scans and queries do to the registry\<close>

lemma devIds_default:
  "map_of devs KEY_BLUETOOTH = None \<Longrightarrow>
   devIds (devs @ [(KEY_BLUETOOTH, Ids {})]) k = devIds devs k"
  by (auto simp: devIds_def map_add_def split: option.splits entry.splits)

lemma matchFunc_default:
  "map_of devs KEY_BLUETOOTH = None \<Longrightarrow>
   (case map_of (devs @ [(KEY_BLUETOOTH, Ids {})]) KEY_BLUETOOTH of
      Some (MatchFunc f) \<Rightarrow> Some f | _ \<Rightarrow> None) =
   (case map_of devs KEY_BLUETOOTH of Some (MatchFunc f) \<Rightarrow> Some f | _ \<Rightarrow> None)"
  by (simp add: map_add_def)

lemma onlyDefaultsInserted_preserves:
  assumes "onlyDefaultsInserted reg reg'"
  shows "map fst reg' = map fst reg" and "idsOf reg' d k = idsOf reg d k"
    and "matchFuncOf reg' d = matchFuncOf reg d"
proof -
  have "list_all2
       (\<lambda>(d, devs) (d', devs').
          d' = d \<and>
          (devs' = devs \<or>
           (map_of devs KEY_BLUETOOTH = None \<and> devs' = devs @ [(KEY_BLUETOOTH, Ids {})])))
       reg reg'"
    using assms by (simp add: onlyDefaultsInserted_def)
  then have "map fst reg' = map fst reg \<and> idsOf reg' d k = idsOf reg d k \<and>
      matchFuncOf reg' d = matchFuncOf reg d"
  proof (induction rule: list_all2_induct)
    case Nil
    then show ?case by (simp add: idsOf_def matchFuncOf_def)
  next
    case (Cons x xs y ys)
    obtain a devs where x: "x = (a, devs)" by (cases x)
    obtain b devs' where y: "y = (b, devs')" by (cases y)
    have ab: "b = a" and dd: "devs' = devs \<or>
        (map_of devs KEY_BLUETOOTH = None \<and> devs' = devs @ [(KEY_BLUETOOTH, Ids {})])"
      using Cons.hyps(1) x y by simp_all
    have i: "devIds devs' k = devIds devs k" using dd devIds_default by auto
    have m: "(case map_of devs' KEY_BLUETOOTH of Some (MatchFunc f) \<Rightarrow> Some f | _ \<Rightarrow> None) =
       (case map_of devs KEY_BLUETOOTH of Some (MatchFunc f) \<Rightarrow> Some f | _ \<Rightarrow> None)"
      using dd matchFunc_default by auto
    have ih1: "map fst ys = map fst xs" and ih2: "idsOf ys d k = idsOf xs d k"
      and ih3: "matchFuncOf ys d = matchFuncOf xs d"
      using Cons.IH by simp_all
    have 1: "map fst (y # ys) = map fst (x # xs)" using ih1 x y ab by simp
    have 2: "idsOf (y # ys) d k = idsOf (x # xs) d k"
      using ih2 i x y ab by (simp add: idsOf_def)
    have 3: "matchFuncOf (y # ys) d = matchFuncOf (x # xs) d"
      using ih3 m x y ab by (simp add: matchFuncOf_def)
    show ?case using 1 2 3 by simp
  qed
  then show "map fst reg' = map fst reg" and "idsOf reg' d k = idsOf reg d k"
    and "matchFuncOf reg' d = matchFuncOf reg d"
    by simp_all
qed

lemma iterate_bt_all_registry:
  "onlyDefaultsInserted (driverDevices st)
     (driverDevices (snd (iterate getDriversForPossibleBluetoothDevices env st)))"
  by (cases "snd (enumeratedBluetooth env st)")
    (simp_all add: iterate_bt_all matchAllBluetooth_registry onlyDefaultsInserted_refl)

lemma iterate_bt_driver_registry:
  "onlyDefaultsInserted (driverDevices st)
     (driverDevices (snd (iterate (getPossibleBluetoothDevicesForDriver driver) env st)))"
proof (cases "map_of (driverDevices st) driver")
  case None
  then show ?thesis by (simp add: iterate_bt_driver onlyDefaultsInserted_refl)
next
  case (Some devs)
  then show ?thesis
    by (cases "fst (getDefault KEY_BLUETOOTH devs)")
      (simp_all add: iterate_bt_driver onlyDefaultsInserted_update)
qed

lemma iterate_usb_driver_registry:
  "driverDevices (snd (iterate (getConnectedUsbDevicesForDriver driver) env st)) = driverDevices st"
  by (cases "map_of (driverDevices st) driver") (simp_all add: iterate_usb_driver)

lemma arePossibleDevicesForDriver_registry:
  "onlyDefaultsInserted (driverDevices st)
     (driverDevices (snd (arePossibleDevicesForDriver driver env st)))"
proof -
  obtain g1 st1 where a: "iterate (getConnectedUsbDevicesForDriver driver) env st = (g1, st1)"
    by (cases "iterate (getConnectedUsbDevicesForDriver driver) env st")
  have r1: "driverDevices st1 = driverDevices st"
    using iterate_usb_driver_registry[of driver env st] a by simp
  obtain g2 st2 where b: "iterate (getPossibleBluetoothDevicesForDriver driver) env st1 = (g2, st2)"
    by (cases "iterate (getPossibleBluetoothDevicesForDriver driver) env st1")
  have r2: "onlyDefaultsInserted (driverDevices st) (driverDevices st2)"
    using iterate_bt_driver_registry[of st1 driver env] b r1 by simp
  have "snd (arePossibleDevicesForDriver driver env st) = st1 \<or>
        snd (arePossibleDevicesForDriver driver env st) = st2"
    using a b by (auto simp: arePossibleDevicesForDriver_def split: step.splits)
  then show ?thesis using r1 r2 onlyDefaultsInserted_refl[of "driverDevices st"] by auto
qed

lemma example_bt_query_registry:
  "driverDevices (snd (iterate (getPossibleBluetoothDevicesForDriver ''superBrl'') exampleEnv exampleState)) =
     [(''brailliantB'',
        [(KEY_HID, Ids {Str ''VID_1C71&PID_C006''}),
         (KEY_CUSTOM, Ids {Str ''VID_1C71&PID_C005''}),
         (KEY_BLUETOOTH,
            MatchFunc (\<lambda>m. startswith (matchId m) ''Brailliant B'' \<or> matchId m = Str ''Brailliant 80''))]),
      (''superBrl'', [(KEY_SERIAL, Ids {Str ''VID_10C4&PID_EA60''}), (KEY_BLUETOOTH, Ids {})])]"
  by (simp add: iterate_bt_driver exampleState_simps exampleRegistry_def getDefault_def
      KEY_HID_def KEY_CUSTOM_def KEY_SERIAL_def KEY_BLUETOOTH_def)

theorem registry_unchanged_counterexample:
  "map_of (driverDevices exampleState) ''superBrl'' =
     Some [(KEY_SERIAL, Ids {Str ''VID_10C4&PID_EA60''})] \<and>
   map_of (driverDevices (snd (iterate (getPossibleBluetoothDevicesForDriver ''superBrl'')
                                 exampleEnv exampleState))) ''superBrl'' =
     Some [(KEY_SERIAL, Ids {Str ''VID_10C4&PID_EA60''}), (KEY_BLUETOOTH, Ids {})] \<and>
   driverDevices (snd (iterate (getPossibleBluetoothDevicesForDriver ''superBrl'')
                         exampleEnv exampleState)) \<noteq> driverDevices exampleState"
  by (simp add: example_bt_query_registry exampleState_simps)
    (simp add: exampleRegistry_def)

text \<open>
  Claim C8, amended. A pass, the two Bluetooth functions and
  \<^verbatim>\<open>arePossibleDevicesForDriver\<close> change the registry in one way only: a driver whose
  dictionary has no key \<^verbatim>\<open>KEY_BLUETOOTH\<close> may get that key with an empty set (the
  dictionaries are \<^verbatim>\<open>defaultdict(set)\<close>, and the key is read). The two USB functions
  leave the registry as it is. Such a change keeps the driver names and their order,
  every set of ids and every match function.
\<close>

theorem registry_only_gets_defaults:
  "onlyDefaultsInserted (driverDevices st) (driverDevices (snd (bgScan env st))) \<and>
   onlyDefaultsInserted (driverDevices st)
     (driverDevices (snd (iterate getDriversForPossibleBluetoothDevices env st))) \<and>
   onlyDefaultsInserted (driverDevices st)
     (driverDevices (snd (iterate (getPossibleBluetoothDevicesForDriver driver) env st))) \<and>
   onlyDefaultsInserted (driverDevices st)
     (driverDevices (snd (arePossibleDevicesForDriver driver env st))) \<and>
   driverDevices (snd (iterate getDriversForConnectedUsbDevices env st)) = driverDevices st \<and>
   driverDevices (snd (iterate (getConnectedUsbDevicesForDriver driver) env st)) = driverDevices st \<and>
   (onlyDefaultsInserted reg reg' \<longrightarrow>
      map fst reg' = map fst reg \<and> idsOf reg' d k = idsOf reg d k \<and>
      matchFuncOf reg' d = matchFuncOf reg d)"
proof -
  have p: "bgScan env st = (fst (bgScan env st), snd (bgScan env st))" by simp
  have 1: "onlyDefaultsInserted (driverDevices st) (driverDevices (snd (bgScan env st)))"
    using bgScan_registry[OF p] .
  have 5: "driverDevices (snd (iterate getDriversForConnectedUsbDevices env st)) = driverDevices st"
    by (simp add: iterate_usb_all)
  have 7: "onlyDefaultsInserted reg reg' \<longrightarrow>
      map fst reg' = map fst reg \<and> idsOf reg' d k = idsOf reg d k \<and>
      matchFuncOf reg' d = matchFuncOf reg d"
    using onlyDefaultsInserted_preserves[of reg reg'] by blast
  show ?thesis
    by (intro conjI 1 iterate_bt_all_registry iterate_bt_driver_registry
        arePossibleDevicesForDriver_registry 5 iterate_usb_driver_registry 7)
qed

theorem registry_only_gets_defaults_witness:
  "onlyDefaultsInserted exampleRegistry
      (driverDevices (snd (iterate (getPossibleBluetoothDevicesForDriver ''superBrl'')
                             exampleEnv exampleState))) \<and>
   idsOf (driverDevices (snd (iterate (getPossibleBluetoothDevicesForDriver ''superBrl'')
                                exampleEnv exampleState))) ''superBrl'' KEY_SERIAL =
     idsOf exampleRegistry ''superBrl'' KEY_SERIAL \<and>
   matchFuncOf (driverDevices (snd (iterate (getPossibleBluetoothDevicesForDriver ''superBrl'')
                                exampleEnv exampleState))) ''superBrl'' =
     matchFuncOf exampleRegistry ''superBrl''"
  using registry_only_gets_defaults[of exampleState exampleEnv "''superBrl''" exampleRegistry
      "driverDevices (snd (iterate (getPossibleBluetoothDevicesForDriver ''superBrl'')
                             exampleEnv exampleState))" "''superBrl''" KEY_SERIAL]
  by (simp add: exampleState_simps)

subsection \<open>Queries for a driver that is not registered; generator functions\<close>

lemma unregistered_lookup:
  assumes "register rs [] = Inr reg" and "driver \<notin> registeredDrivers rs"
  shows "map_of reg driver = None"
proof -
  have "fst ` set reg = registeredDrivers rs" using register_dom[OF assms(1)] by simp
  then show ?thesis using assms(2) by (simp add: map_of_eq_None_iff)
qed

theorem call_with_unregistered_driver_counterexample:
  "''nodriver'' \<notin> registeredDrivers detectionData \<and>
   fst (callGenerator getConnectedUsbDevicesForDriver ''nodriver'' exampleState) =
     Inr (getConnectedUsbDevicesForDriver ''nodriver'') \<and>
   fst (callGenerator getPossibleBluetoothDevicesForDriver ''nodriver'' exampleState) =
     Inr (getPossibleBluetoothDevicesForDriver ''nodriver'') \<and>
   fst (callGenerator getConnectedUsbDevicesForDriver ''nodriver'' exampleState) \<noteq> Inl KeyError \<and>
   fst (callGenerator getPossibleBluetoothDevicesForDriver ''nodriver'' exampleState) \<noteq> Inl KeyError"
  by (simp add: callGenerator_def detectionData_def)

text \<open>
  Claim C6, amended. Let the registry be the one that a sequence of registrations built,
  and let the driver be none of those registered. Then the first \<^verbatim>\<open>next\<close> of the
  generator that \<^verbatim>\<open>getConnectedUsbDevicesForDriver\<close> returns raises \<^verbatim>\<open>KeyError\<close>, a
  \<^verbatim>\<open>LookupError\<close>, and so does the first \<^verbatim>\<open>next\<close> of the generator that
  \<^verbatim>\<open>getPossibleBluetoothDevicesForDriver\<close> returns; \<^verbatim>\<open>arePossibleDevicesForDriver\<close>
  raises it when it is called. None of them has called an enumeration or changed the
  state by then.
\<close>

theorem unregistered_driver_raises_on_iteration:
  assumes "register rs [] = Inr (driverDevices st)" and "driver \<notin> registeredDrivers rs"
  shows "firstStep (fst (iterate (getConnectedUsbDevicesForDriver driver) env st)) = Raises KeyError \<and>
         snd (iterate (getConnectedUsbDevicesForDriver driver) env st) = st \<and>
         firstStep (fst (iterate (getPossibleBluetoothDevicesForDriver driver) env st)) = Raises KeyError \<and>
         snd (iterate (getPossibleBluetoothDevicesForDriver driver) env st) = st \<and>
         arePossibleDevicesForDriver driver env st = (Inl KeyError, st) \<and>
         isLookupError KeyError"
proof -
  have n: "map_of (driverDevices st) driver = None" using unregistered_lookup[OF assms] .
  have a: "iterate (getConnectedUsbDevicesForDriver driver) env st = (([], Some KeyError), st)"
    using n by (simp add: iterate_usb_driver)
  have b: "iterate (getPossibleBluetoothDevicesForDriver driver) env st = (([], Some KeyError), st)"
    using n by (simp add: iterate_bt_driver)
  have c: "arePossibleDevicesForDriver driver env st = (Inl KeyError, st)"
    using a by (simp add: arePossibleDevicesForDriver_def)
  show ?thesis using a b c by simp
qed

theorem unregistered_driver_raises_on_iteration_witness:
  "firstStep (fst (iterate (getConnectedUsbDevicesForDriver ''nodriver'') exampleEnv exampleState)) =
     Raises KeyError \<and>
   firstStep (fst (iterate (getPossibleBluetoothDevicesForDriver ''nodriver'') exampleEnv exampleState)) =
     Raises KeyError \<and>
   arePossibleDevicesForDriver ''nodriver'' exampleEnv exampleState = (Inl KeyError, exampleState)"
  using unregistered_driver_raises_on_iteration[of detectionData exampleState "''nodriver''" exampleEnv]
  by (simp add: detectionData_registry exampleState_simps)
    (simp add: detectionData_def)

text \<open>
  Claim C10. \<^verbatim>\<open>getConnectedUsbDevicesForDriver\<close> and
  \<^verbatim>\<open>getPossibleBluetoothDevicesForDriver\<close> are generator functions: a call returns the
  generator, raises nothing and leaves the state, hence the trace of external calls, as
  it was, whatever the driver name. Iterating the generator of a name that is not in the
  registry raises \<^verbatim>\<open>KeyError\<close> at the first step, before any enumeration. For a name
  that is in the registry, iterating the first generator makes the three enumeration
  calls, and iterating the second one makes the call to \<^verbatim>\<open>listComPorts\<close> when a match
  function is registered and no call when none is.
\<close>

theorem generator_functions_are_lazy:
  "callGenerator getConnectedUsbDevicesForDriver driver st =
     (Inr (getConnectedUsbDevicesForDriver driver), st) \<and>
   callGenerator getPossibleBluetoothDevicesForDriver driver st =
     (Inr (getPossibleBluetoothDevicesForDriver driver), st) \<and>
   (map_of (driverDevices st) driver = None \<longrightarrow>
      firstStep (fst (iterate (getConnectedUsbDevicesForDriver driver) env st)) = Raises KeyError \<and>
      newEvents st (snd (iterate (getConnectedUsbDevicesForDriver driver) env st)) = [] \<and>
      firstStep (fst (iterate (getPossibleBluetoothDevicesForDriver driver) env st)) = Raises KeyError \<and>
      newEvents st (snd (iterate (getPossibleBluetoothDevicesForDriver driver) env st)) = []) \<and>
   (map_of (driverDevices st) driver \<noteq> None \<longrightarrow>
      newEvents st (snd (iterate (getConnectedUsbDevicesForDriver driver) env st)) =
        [ListUsbDevices, ListHidDevices, ListComPorts] \<and>
      newEvents st (snd (iterate (getPossibleBluetoothDevicesForDriver driver) env st)) =
        (if matchFuncOf (driverDevices st) driver = None then [] else [ListComPorts]))"
proof -
  have 1: "callGenerator getConnectedUsbDevicesForDriver driver st =
     (Inr (getConnectedUsbDevicesForDriver driver), st)"
    by (simp add: callGenerator_def)
  have 2: "callGenerator getPossibleBluetoothDevicesForDriver driver st =
     (Inr (getPossibleBluetoothDevicesForDriver driver), st)"
    by (simp add: callGenerator_def)
  have 3: "map_of (driverDevices st) driver = None \<longrightarrow>
      firstStep (fst (iterate (getConnectedUsbDevicesForDriver driver) env st)) = Raises KeyError \<and>
      newEvents st (snd (iterate (getConnectedUsbDevicesForDriver driver) env st)) = [] \<and>
      firstStep (fst (iterate (getPossibleBluetoothDevicesForDriver driver) env st)) = Raises KeyError \<and>
      newEvents st (snd (iterate (getPossibleBluetoothDevicesForDriver driver) env st)) = []"
    by (simp add: iterate_usb_driver iterate_bt_driver newEvents_def)
  have 4: "map_of (driverDevices st) driver \<noteq> None \<longrightarrow>
      newEvents st (snd (iterate (getConnectedUsbDevicesForDriver driver) env st)) =
        [ListUsbDevices, ListHidDevices, ListComPorts] \<and>
      newEvents st (snd (iterate (getPossibleBluetoothDevicesForDriver driver) env st)) =
        (if matchFuncOf (driverDevices st) driver = None then [] else [ListComPorts])"
  proof
    assume "map_of (driverDevices st) driver \<noteq> None"
    then obtain devs where d: "map_of (driverDevices st) driver = Some devs" by blast
    have a: "newEvents st (snd (iterate (getConnectedUsbDevicesForDriver driver) env st)) =
        [ListUsbDevices, ListHidDevices, ListComPorts]"
      using d by (simp add: iterate_usb_driver newEvents_def)
    have b: "newEvents st (snd (iterate (getPossibleBluetoothDevicesForDriver driver) env st)) =
        (if matchFuncOf (driverDevices st) driver = None then [] else [ListComPorts])"
    proof (cases "fst (getDefault KEY_BLUETOOTH devs)")
      case (Ids s)
      then have "matchFuncOf (driverDevices st) driver = None"
        using d by (auto simp: matchFuncOf_def getDefault_fst split: option.splits entry.splits)
      then show ?thesis using d Ids by (simp add: iterate_bt_driver newEvents_def)
    next
      case (MatchFunc f)
      then have "matchFuncOf (driverDevices st) driver = Some f"
        using d by (auto simp: matchFuncOf_def getDefault_fst split: option.splits entry.splits)
      then show ?thesis using d MatchFunc by (simp add: iterate_bt_driver newEvents_def)
    qed
    show "newEvents st (snd (iterate (getConnectedUsbDevicesForDriver driver) env st)) =
        [ListUsbDevices, ListHidDevices, ListComPorts] \<and>
      newEvents st (snd (iterate (getPossibleBluetoothDevicesForDriver driver) env st)) =
        (if matchFuncOf (driverDevices st) driver = None then [] else [ListComPorts])"
      using a b by simp
  qed
  show ?thesis by (intro conjI 1 2 3 4)
qed

theorem generator_functions_are_lazy_witness:
  "firstStep (fst (iterate (getConnectedUsbDevicesForDriver ''nodriver'') exampleEnv exampleState)) =
     Raises KeyError \<and>
   newEvents exampleState
     (snd (iterate (getConnectedUsbDevicesForDriver ''nodriver'') exampleEnv exampleState)) = [] \<and>
   newEvents exampleState
     (snd (iterate (getConnectedUsbDevicesForDriver ''brailliantB'') exampleEnv exampleState)) =
       [ListUsbDevices, ListHidDevices, ListComPorts] \<and>
   newEvents exampleState
     (snd (iterate (getPossibleBluetoothDevicesForDriver ''brailliantB'') exampleEnv exampleState)) =
       [ListComPorts] \<and>
   newEvents exampleState
     (snd (iterate (getPossibleBluetoothDevicesForDriver ''superBrl'') exampleEnv exampleState)) = []"
  using generator_functions_are_lazy[of "''nodriver''" exampleState exampleEnv]
    generator_functions_are_lazy[of "''brailliantB''" exampleState exampleEnv]
    generator_functions_are_lazy[of "''superBrl''" exampleState exampleEnv]
  by (simp add: exampleState_simps)
    (simp add: exampleRegistry_def matchFuncOf_def KEY_HID_def KEY_CUSTOM_def KEY_SERIAL_def
      KEY_BLUETOOTH_def)

subsection \<open>Example passes\<close>

lemma example_bt_candidates:
  "fst (matchAllBluetooth [btMatch] exampleRegistry) = [(''brailliantB'', btMatch)]"
  "fst (matchAllBluetooth [btMatch, btMatch2] exampleRegistry) =
     [(''brailliantB'', btMatch), (''brailliantB'', btMatch2)]"
  by (simp_all add: matchAllBluetooth_eq btAccepts_def exampleRegistry_def btMatch_def btMatch2_def
      KEY_HID_def KEY_CUSTOM_def KEY_SERIAL_def KEY_BLUETOOTH_def)

lemma example_no_usb_candidates: "matchAllUsb reg ([], None) = ([], None)"
  by (simp add: matchAllUsb_def)

lemma btSucceedEnv_simps:
  "stopAt btSucceedEnv = None"
  "activates btSucceedEnv t driver match = True"
  "enumeratedUsb btSucceedEnv st = ([], None)"
  "enumeratedBluetooth btSucceedEnv st = ([btMatch], None)"
  by (simp_all add: btSucceedEnv_def succeedEnv_def exampleEnv_def enumeratedUsb_def
      enumeratedBluetooth_def usbDevs_def btDevs_def newDeviceMatch_def getitem_def
      btPort_def btMatch_def)

lemma stoppedEnv_simps:
  "stopAt stoppedEnv = Some 0"
  by (simp_all add: stoppedEnv_def)

lemma cancelEnv_simps:
  "stopAt cancelEnv = Some 10"
  "activates cancelEnv t driver match = False"
  "enumeratedUsb cancelEnv st = ([], None)"
  "enumeratedBluetooth cancelEnv st = ([btMatch, btMatch2], None)"
  by (simp_all add: cancelEnv_def exampleEnv_def enumeratedUsb_def
      enumeratedBluetooth_def usbDevs_def btDevs_def newDeviceMatch_def getitem_def
      btPort_def btMatch_def btPort2_def btMatch2_def)

lemma exampleEnv_enumerated:
  "enumeratedUsb exampleEnv st = ([hidMatch], None)"
  "enumeratedBluetooth exampleEnv st = ([btMatch], None)"
  by (simp_all add: exampleEnv_def enumeratedUsb_def
      enumeratedBluetooth_def usbDevs_def btDevs_def newDeviceMatch_def getitem_def
      btPort_def btMatch_def hidPort_def hidMatch_def)

lemmas pass_eval = bgScan_def usbStage_eq btStage_def btCandidates_def iterate_bt_all
  btFinish_eq isSet_def setDisplayByName_def Let_def exampleState_simps
  example_no_usb_candidates example_usb_candidates example_bt_candidates newEvents_def

lemma btSucceed_pass:
  "fst (bgScan btSucceedEnv exampleState) = Activated"
  "pollTimer (snd (bgScan btSucceedEnv exampleState)) = Some POLL_INTERVAL"
  "btComs (snd (bgScan btSucceedEnv exampleState)) = Some [(''brailliantB'', btMatch)]"
  "attempts (newEvents exampleState (snd (bgScan btSucceedEnv exampleState))) =
     [(''brailliantB'', btMatch)]"
  by (simp_all add: pass_eval btSucceedEnv_simps del: matchAllBluetooth.simps)

lemma stopped_pass:
  "bgScan stoppedEnv pollState = (Cancelled, pollState\<lparr>trace := trace pollState @ [IsSet True]\<rparr>)"
  by (simp add: bgScan_no_usb pollState_simps btStage_def isSet_def stoppedEnv_simps)

lemma cancel_pass:
  "fst (bgScan cancelEnv exampleState) = Cancelled"
  "btComs (snd (bgScan cancelEnv exampleState)) = None"
  "attempts (newEvents exampleState (snd (bgScan cancelEnv exampleState))) =
     [(''brailliantB'', btMatch)]"
  by (simp_all add: pass_eval cancelEnv_simps del: matchAllBluetooth.simps)

lemma example_pass:
  "fst (bgScan exampleEnv exampleState) = Finished"
  "pollTimer (snd (bgScan exampleEnv exampleState)) = Some POLL_INTERVAL"
  "btComs (snd (bgScan exampleEnv exampleState)) = Some [(''brailliantB'', btMatch)]"
  "attempts (newEvents exampleState (snd (bgScan exampleEnv exampleState))) =
     [(''brailliantB'', hidMatch), (''brailliantB'', btMatch)]"
  by (simp_all add: pass_eval exampleEnv_simps exampleEnv_enumerated del: matchAllBluetooth.simps)

subsection \<open>A successful USB activation\<close>

lemma notStoppedBy_mono: "notStoppedBy env t \<Longrightarrow> s \<le> t \<Longrightarrow> notStoppedBy env s"
  by (auto simp: notStoppedBy_def split: option.splits)

lemma isSet_clear:
  "\<not> ev \<Longrightarrow> notStoppedBy env (length (trace st)) \<Longrightarrow>
   isSet env ev st = (False, st\<lparr>trace := trace st @ [IsSet False]\<rparr>)"
  by (auto simp: isSet_def notStoppedBy_def Let_def split: option.splits)

lemma attempts_failedTries: "attempts (failedTries cands) = cands"
  by (induction cands rule: failedTries.induct) simp_all

lemma usbLoop_success:
  assumes "j < length cands"
    and "\<forall>i<j. \<not> activates env (length (trace st) + 2 * i + 1) (fst (cands ! i)) (snd (cands ! i))"
    and "activates env (length (trace st) + 2 * j + 1) (fst (cands ! j)) (snd (cands ! j))"
    and "\<not> ev"
    and "notStoppedBy env (length (trace st) + 2 * j)"
  shows "usbLoop env ev cands st =
     (Some Activated,
      st\<lparr>trace := trace st @ failedTries (take j cands) @
         [IsSet False, SetDisplayByName (fst (cands ! j)) (snd (cands ! j)) True]\<rparr>)"
  using assms
proof (induction cands arbitrary: j st)
  case Nil
  then show ?case by simp
next
  case (Cons c cs)
  obtain d m where c: "c = (d, m)" by (cases c)
  let ?st1 = "st\<lparr>trace := trace st @ [IsSet False]\<rparr>"
  have ns: "notStoppedBy env (length (trace st))"
    using Cons.prems(5) by (rule notStoppedBy_mono) simp
  have i: "isSet env ev st = (False, ?st1)" using isSet_clear[OF Cons.prems(4) ns] .
  show ?case
  proof (cases j)
    case 0
    then have "activates env (length (trace st) + 1) d m" using Cons.prems(3) c by simp
    then have "setDisplayByName env d m ?st1 =
        (True, ?st1\<lparr>trace := trace ?st1 @ [SetDisplayByName d m True]\<rparr>)"
      by (simp add: setDisplayByName_def)
    then show ?thesis using i c 0 by simp
  next
    case (Suc j')
    have "\<not> activates env (length (trace st) + 1) d m"
      using Cons.prems(2) c Suc by auto
    then have s: "setDisplayByName env d m ?st1 =
        (False, ?st1\<lparr>trace := trace ?st1 @ [SetDisplayByName d m False]\<rparr>)"
      by (simp add: setDisplayByName_def)
    let ?st2 = "st\<lparr>trace := trace st @ [IsSet False, SetDisplayByName d m False]\<rparr>"
    have st2: "?st1\<lparr>trace := trace ?st1 @ [SetDisplayByName d m False]\<rparr> = ?st2" by simp
    have l: "length (trace ?st2) = length (trace st) + 2" by simp
    have a1: "j' < length cs" using Cons.prems(1) Suc by simp
    have a2: "\<forall>i<j'. \<not> activates env (length (trace ?st2) + 2 * i + 1) (fst (cs ! i)) (snd (cs ! i))"
    proof (intro allI impI)
      fix i assume "i < j'"
      then have "Suc i < j" using Suc by simp
      then have "\<not> activates env (length (trace st) + 2 * Suc i + 1)
          (fst ((c # cs) ! Suc i)) (snd ((c # cs) ! Suc i))"
        using Cons.prems(2) by blast
      then show "\<not> activates env (length (trace ?st2) + 2 * i + 1) (fst (cs ! i)) (snd (cs ! i))"
        by (simp add: l)
    qed
    have a3: "activates env (length (trace ?st2) + 2 * j' + 1) (fst (cs ! j')) (snd (cs ! j'))"
      using Cons.prems(3) Suc by (simp add: l)
    have a5: "notStoppedBy env (length (trace ?st2) + 2 * j')"
      using Cons.prems(5) Suc by (simp add: l)
    have "usbLoop env ev cs ?st2 =
       (Some Activated,
        ?st2\<lparr>trace := trace ?st2 @ failedTries (take j' cs) @
           [IsSet False, SetDisplayByName (fst (cs ! j')) (snd (cs ! j')) True]\<rparr>)"
      using Cons.IH[OF a1 a2 a3 Cons.prems(4) a5] .
    then show ?thesis using i s st2 c Suc by simp
  qed
qed

lemma bgScan_usb_success:
  assumes "detectUsb st" and "\<not> stopEvent st"
    and "cands = fst (fst (iterate getDriversForConnectedUsbDevices env
                            (st\<lparr>trace := trace st @ [IsSet False]\<rparr>)))"
    and "j < length cands"
    and "\<forall>i<j. \<not> activates env (usbAttemptTime st i) (fst (cands ! i)) (snd (cands ! i))"
    and "activates env (usbAttemptTime st j) (fst (cands ! j)) (snd (cands ! j))"
    and "notStoppedBy env (usbCheckTime st j)"
  shows "bgScan env st =
     (Activated,
      st\<lparr>trace := trace st @ [IsSet False, ListUsbDevices, ListHidDevices, ListComPorts] @
         failedTries (take j cands) @
         [IsSet False, SetDisplayByName (fst (cands ! j)) (snd (cands ! j)) True]\<rparr>)"
proof -
  let ?st0 = "st\<lparr>trace := trace st @ [IsSet False]\<rparr>"
  let ?st2 = "st\<lparr>trace := trace st @ [IsSet False, ListUsbDevices, ListHidDevices, ListComPorts]\<rparr>"
  have c: "cands = fst (matchAllUsb (driverDevices st) (enumeratedUsb env ?st0))"
    using assms(3) by (simp add: iterate_usb_all)
  have "notStoppedBy env (length (trace st))"
    using assms(7) by (rule notStoppedBy_mono) (simp add: usbCheckTime_def)
  then have i: "\<not> fst (isSet env (stopEvent st) st)"
    using isSet_clear[OF assms(2)] by simp
  have l: "length (trace ?st2) = length (trace st) + 4" by simp
  have t: "usbAttemptTime st i = length (trace ?st2) + 2 * i + 1" for i
    by (simp add: usbAttemptTime_def)
  have u: "usbCheckTime st i = length (trace ?st2) + 2 * i" for i
    by (simp add: usbCheckTime_def)
  have a2: "\<forall>i<j. \<not> activates env (length (trace ?st2) + 2 * i + 1) (fst (cands ! i)) (snd (cands ! i))"
    using assms(5) by (simp only: t)
  have a3: "activates env (length (trace ?st2) + 2 * j + 1) (fst (cands ! j)) (snd (cands ! j))"
    using assms(6) by (simp only: t)
  have a5: "notStoppedBy env (length (trace ?st2) + 2 * j)"
    using assms(7) by (simp only: u)
  have "usbLoop env (stopEvent st) cands ?st2 =
     (Some Activated,
      ?st2\<lparr>trace := trace ?st2 @ failedTries (take j cands) @
         [IsSet False, SetDisplayByName (fst (cands ! j)) (snd (cands ! j)) True]\<rparr>)"
    using usbLoop_success[OF assms(4) a2 a3 assms(2) a5] .
  then have "usbStage env (stopEvent st) st =
     (Some Activated,
      ?st2\<lparr>trace := trace ?st2 @ failedTries (take j cands) @
         [IsSet False, SetDisplayByName (fst (cands ! j)) (snd (cands ! j)) True]\<rparr>)"
    using i c by (simp add: usbStage_eq)
  then show ?thesis using assms(1) by (simp add: bgScan_def Let_def)
qed

lemma take_Suc_failedTries:
  "j < length cands \<Longrightarrow>
   attempts (failedTries (take j cands) @
      [IsSet False, SetDisplayByName (fst (cands ! j)) (snd (cands ! j)) True]) =
   take (Suc j) cands"
  by (simp add: attempts_append attempts_failedTries take_Suc_conv_app_nth)

text \<open>
  Claim C7. A pass that scans USB starts in \<open>st\<close> with the stop event clear, and
  \<open>cands\<close> are the candidates that \<^verbatim>\<open>getDriversForConnectedUsbDevices\<close> yields in it. If
  the activations of the first \<open>j\<close> candidates return false, the activation of
  candidate \<open>j\<close> returns true, and nobody sets the stop event before that, then
  \<^verbatim>\<open>_bgScan\<close> returns right after that call. The events of the pass are the first test of
  the stop event, the three enumerations of the USB function, one failed try for each of
  the first \<open>j\<close> candidates, and the successful try of candidate \<open>j\<close>: the candidates
  after \<open>j\<close> are not tried, \<^verbatim>\<open>listComPorts\<close> is not called again for Bluetooth, no Bluetooth
  candidate is tried and no timer is armed. Apart from the trace the state is the one in
  which the pass started.
\<close>

theorem usb_success_ends_pass:
  assumes "detectUsb st" and "\<not> stopEvent st"
    and "cands = fst (fst (iterate getDriversForConnectedUsbDevices env
                            (st\<lparr>trace := trace st @ [IsSet False]\<rparr>)))"
    and "j < length cands"
    and "\<forall>i<j. \<not> activates env (usbAttemptTime st i) (fst (cands ! i)) (snd (cands ! i))"
    and "activates env (usbAttemptTime st j) (fst (cands ! j)) (snd (cands ! j))"
    and "notStoppedBy env (usbCheckTime st j)"
  shows "bgScan env st =
     (Activated,
      st\<lparr>trace := trace st @ [IsSet False, ListUsbDevices, ListHidDevices, ListComPorts] @
         failedTries (take j cands) @
         [IsSet False, SetDisplayByName (fst (cands ! j)) (snd (cands ! j)) True]\<rparr>) \<and>
     attempts (newEvents st (snd (bgScan env st))) = take (Suc j) cands"
proof -
  let ?evs = "[IsSet False, ListUsbDevices, ListHidDevices, ListComPorts] @
         failedTries (take j cands) @
         [IsSet False, SetDisplayByName (fst (cands ! j)) (snd (cands ! j)) True]"
  have b: "bgScan env st = (Activated, st\<lparr>trace := trace st @ ?evs\<rparr>)"
    using bgScan_usb_success[OF assms] .
  have "newEvents st (snd (bgScan env st)) = ?evs"
    unfolding b snd_conv by (rule newEvents_append)
  then have "attempts (newEvents st (snd (bgScan env st))) = take (Suc j) cands"
    using take_Suc_failedTries[OF assms(4)] by (simp add: attempts_append)
  then show ?thesis using b by simp
qed

lemma twoHid_candidates:
  assumes "driverDevices st = exampleRegistry"
  shows "fst (fst (iterate getDriversForConnectedUsbDevices twoHidEnv st)) =
     [(''brailliantB'', hidMatch), (''brailliantB'', hidMatch2)]"
    and "fst (fst (iterate getDriversForConnectedUsbDevices secondHidEnv st)) =
     [(''brailliantB'', hidMatch), (''brailliantB'', hidMatch2)]"
  using assms
  by (simp_all add: iterate_usb_all enumeratedUsb_def twoHidEnv_def secondHidEnv_def
      exampleEnv_def usbDevs_def newDeviceMatch_def getitem_def hidPort_def hidPort2_def
      btPort_def hidMatch_def hidMatch2_def matchAllUsb_def matchDevs_def
      contains_def exampleRegistry_def KEY_HID_def KEY_CUSTOM_def KEY_SERIAL_def
      KEY_BLUETOOTH_def)

lemma hidMatch_ports:
  "matchPort hidMatch = Str ''hid0''"
  "matchPort hidMatch2 = Str ''hid1''"
  by (simp_all add: hidMatch_def hidMatch2_def)

lemma twoHidEnv_simps:
  "stopAt twoHidEnv = None"
  "activates twoHidEnv t driver match = True"
  "stopAt secondHidEnv = None"
  "activates secondHidEnv t driver match = (matchPort match = Str ''hid1'')"
  by (simp_all add: twoHidEnv_def secondHidEnv_def exampleEnv_def)

theorem usb_success_ends_pass_witness:
  "bgScan twoHidEnv exampleState =
     (Activated,
      exampleState\<lparr>trace := trace exampleState @
        [IsSet False, ListUsbDevices, ListHidDevices, ListComPorts,
         IsSet False, SetDisplayByName ''brailliantB'' hidMatch True]\<rparr>) \<and>
   attempts (newEvents exampleState (snd (bgScan twoHidEnv exampleState))) =
     [(''brailliantB'', hidMatch)] \<and>
   bgScan secondHidEnv exampleState =
     (Activated,
      exampleState\<lparr>trace := trace exampleState @
        [IsSet False, ListUsbDevices, ListHidDevices, ListComPorts,
         IsSet False, SetDisplayByName ''brailliantB'' hidMatch False,
         IsSet False, SetDisplayByName ''brailliantB'' hidMatch2 True]\<rparr>) \<and>
   attempts (newEvents exampleState (snd (bgScan secondHidEnv exampleState))) =
     [(''brailliantB'', hidMatch), (''brailliantB'', hidMatch2)]"
  using usb_success_ends_pass[of exampleState
      "[(''brailliantB'', hidMatch), (''brailliantB'', hidMatch2)]" twoHidEnv 0]
    usb_success_ends_pass[of exampleState
      "[(''brailliantB'', hidMatch), (''brailliantB'', hidMatch2)]" secondHidEnv 1]
  by (simp add: twoHid_candidates twoHidEnv_simps exampleState_simps notStoppedBy_def
      hidMatch_ports newEvents_def)

subsection \<open>Loops in which every activation fails, or one succeeds\<close>

lemma setDisplayByName_fails:
  "\<not> activates env (length (trace st)) d m \<Longrightarrow>
   setDisplayByName env d m st = (False, st\<lparr>trace := trace st @ [SetDisplayByName d m False]\<rparr>)"
  by (simp add: setDisplayByName_def)


lemma usbLoop_all_fail:
  assumes "\<forall>i<length cands.
      \<not> activates env (length (trace st) + 2 * i + 1) (fst (cands ! i)) (snd (cands ! i))"
    and "\<not> ev"
    and "notStoppedBy env (length (trace st) + 2 * length cands)"
  shows "usbLoop env ev cands st = (None, st\<lparr>trace := trace st @ failedTries cands\<rparr>)"
  using assms
proof (induction cands arbitrary: st)
  case Nil
  then show ?case by simp
next
  case (Cons c cs)
  obtain d m where c: "c = (d, m)" by (cases c)
  let ?st1 = "st\<lparr>trace := trace st @ [IsSet False]\<rparr>"
  let ?st2 = "st\<lparr>trace := trace st @ [IsSet False, SetDisplayByName d m False]\<rparr>"
  have ns: "notStoppedBy env (length (trace st))"
    using Cons.prems(3) by (rule notStoppedBy_mono) simp
  have i: "isSet env ev st = (False, ?st1)" using isSet_clear[OF Cons.prems(2) ns] .
  have "\<not> activates env (length (trace st) + 2 * 0 + 1) (fst ((c # cs) ! 0)) (snd ((c # cs) ! 0))"
    using Cons.prems(1) by blast
  then have "\<not> activates env (length (trace ?st1)) d m" using c by simp
  from setDisplayByName_fails[OF this]
  have s: "setDisplayByName env d m ?st1 = (False, ?st2)" by simp
  have l: "length (trace ?st2) = length (trace st) + 2" by simp
  have a1: "\<forall>i<length cs.
      \<not> activates env (length (trace ?st2) + 2 * i + 1) (fst (cs ! i)) (snd (cs ! i))"
  proof (intro allI impI)
    fix i assume "i < length cs"
    then have "Suc i < length (c # cs)" by simp
    then have "\<not> activates env (length (trace st) + 2 * Suc i + 1)
        (fst ((c # cs) ! Suc i)) (snd ((c # cs) ! Suc i))"
      using Cons.prems(1) by blast
    then show "\<not> activates env (length (trace ?st2) + 2 * i + 1) (fst (cs ! i)) (snd (cs ! i))"
      by (simp add: l)
  qed
  have a3: "notStoppedBy env (length (trace ?st2) + 2 * length cs)"
    using Cons.prems(3) by (simp add: l)
  have "usbLoop env ev cs ?st2 = (None, ?st2\<lparr>trace := trace ?st2 @ failedTries cs\<rparr>)"
    using Cons.IH[OF a1 Cons.prems(2) a3] .
  then show ?case using i s c by simp
qed



subsection \<open>The pass that the poll timer starts\<close>



lemma length_failedTries: "length (failedTries xs) = 2 * length xs"
  by (induction xs rule: failedTries.induct) simp_all






subsection \<open>The cache is reused until a rescan\<close>









subsection \<open>The first Bluetooth part of a pass\<close>

lemma btPartStart_fields:
  "btComs (btPartStart st ucands) = btComs st"
  "pollTimer (btPartStart st ucands) = pollTimer st"
  "driverDevices (btPartStart st ucands) = driverDevices st"
  "trace (btPartStart st ucands) = trace st @ usbPartEvents st ucands"
  by (simp_all add: btPartStart_def)

lemma bgScan_to_btStage:
  assumes f: "usbPartFails env st ucands" and ev: "\<not> stopEvent st"
    and ns: "notStoppedBy env (length (trace (btPartStart st ucands)))"
    and bt: "detectBluetooth st"
  shows "bgScan env st = btStage env (stopEvent st) (btPartStart st ucands)"
proof (cases "detectUsb st")
  case False
  then have "btPartStart st ucands = st"
    using f by (simp add: btPartStart_def usbPartEvents_def usbPartFails_def)
  then show ?thesis using False bt by (simp add: bgScan_no_usb)
next
  case True
  let ?st0 = "st\<lparr>trace := trace st @ [IsSet False]\<rparr>"
  let ?st2 = "st\<lparr>trace := trace st @ [IsSet False, ListUsbDevices, ListHidDevices, ListComPorts]\<rparr>"
  have s: "btPartStart st ucands =
     st\<lparr>trace := trace st @ [IsSet False, ListUsbDevices, ListHidDevices, ListComPorts] @
        failedTries ucands\<rparr>"
    using True by (simp add: btPartStart_def usbPartEvents_def)
  have g: "matchAllUsb (driverDevices st) (enumeratedUsb env ?st0) = (ucands, None)"
    using f True by (simp add: usbPartFails_def iterate_usb_all)
  have fl: "\<forall>i<length ucands.
      \<not> activates env (usbAttemptTime st i) (fst (ucands ! i)) (snd (ucands ! i))"
    using f True by (simp add: usbPartFails_def)
  have "notStoppedBy env (length (trace st))"
    using ns by (rule notStoppedBy_mono) (simp add: s)
  from isSet_clear[OF ev this] have i: "\<not> fst (isSet env (stopEvent st) st)" by simp
  have t: "usbAttemptTime st i = length (trace ?st2) + 2 * i + 1" for i
    by (simp add: usbAttemptTime_def)
  have a1: "\<forall>i<length ucands.
      \<not> activates env (length (trace ?st2) + 2 * i + 1) (fst (ucands ! i)) (snd (ucands ! i))"
    using fl by (simp only: t)
  have "length (trace (btPartStart st ucands)) = length (trace ?st2) + 2 * length ucands"
    by (simp add: s length_failedTries)
  then have a3: "notStoppedBy env (length (trace ?st2) + 2 * length ucands)"
    using ns by simp
  have "usbLoop env (stopEvent st) ucands ?st2 =
      (None, ?st2\<lparr>trace := trace ?st2 @ failedTries ucands\<rparr>)"
    using usbLoop_all_fail[OF a1 ev a3] .
  then have lp: "usbLoop env (stopEvent st) ucands ?st2 = (None, btPartStart st ucands)"
    by (simp add: s)
  have us: "usbStage env (stopEvent st) st = (None, btPartStart st ucands)"
    using i g lp by (simp add: usbStage_eq)
  show ?thesis using True bt us by (simp add: bgScan_def Let_def)
qed

lemma btLoop_stop:
  assumes "j \<le> length cands"
    and "\<forall>i<j. \<not> activates env (length (trace st) + 2 * i + 1) (fst (cands ! i)) (snd (cands ! i))"
    and "\<not> ev"
    and "stopAt env = Some (length (trace st) + 2 * j)"
  shows "btLoop env ev fresh cands cache st =
     (if j < length cands then
        ((Cancelled, if fresh then cache @ take j cands else cache),
         st\<lparr>trace := trace st @ failedTries (take j cands) @ [IsSet True]\<rparr>)
      else
        ((Finished, if fresh then cache @ cands else cache),
         st\<lparr>trace := trace st @ failedTries cands\<rparr>))"
  using assms
proof (induction cands arbitrary: j st cache)
  case Nil
  then show ?case by simp
next
  case (Cons c cs)
  obtain d m where c: "c = (d, m)" by (cases c)
  show ?case
  proof (cases j)
    case 0
    then have "isSet env ev st = (True, st\<lparr>trace := trace st @ [IsSet True]\<rparr>)"
      using Cons.prems(4) by (simp add: isSet_def)
    then show ?thesis using c 0 by simp
  next
    case (Suc j')
    let ?st1 = "st\<lparr>trace := trace st @ [IsSet False]\<rparr>"
    let ?st2 = "st\<lparr>trace := trace st @ [IsSet False, SetDisplayByName d m False]\<rparr>"
    let ?cache1 = "if fresh then cache @ [(d, m)] else cache"
    have i: "isSet env ev st = (False, ?st1)"
      using Cons.prems(3,4) Suc by (simp add: isSet_def)
    have "\<not> activates env (length (trace ?st1)) d m"
      using Cons.prems(2) c Suc by auto
    from setDisplayByName_fails[OF this]
    have s: "setDisplayByName env d m ?st1 = (False, ?st2)" by simp
    have l: "length (trace ?st2) = length (trace st) + 2" by simp
    have a1: "j' \<le> length cs" using Cons.prems(1) Suc by simp
    have a2: "\<forall>i<j'. \<not> activates env (length (trace ?st2) + 2 * i + 1) (fst (cs ! i)) (snd (cs ! i))"
    proof (intro allI impI)
      fix i assume "i < j'"
      then have "Suc i < j" using Suc by simp
      then have "\<not> activates env (length (trace st) + 2 * Suc i + 1)
          (fst ((c # cs) ! Suc i)) (snd ((c # cs) ! Suc i))"
        using Cons.prems(2) by blast
      then show "\<not> activates env (length (trace ?st2) + 2 * i + 1) (fst (cs ! i)) (snd (cs ! i))"
        by (simp add: l)
    qed
    have a4: "stopAt env = Some (length (trace ?st2) + 2 * j')"
      using Cons.prems(4) Suc by (simp add: l)
    note ih = Cons.IH[OF a1 a2 Cons.prems(3) a4, of ?cache1]
    show ?thesis using i s c Suc ih by (simp add: Let_def)
  qed
qed

end
